theory Spec2Isabelle
  imports Complex_Main "HOL-Library.Multiset"
begin

section \<open>Strings\<close>

text \<open>
  A string is a list of 8-bit characters: the development covers the Latin-1 range of
  the JavaScript string type. The functions below are the library functions the program
  calls, restricted to that range.
\<close>

definition is_ws :: "char \<Rightarrow> bool" where
  \<comment> \<open>White space and line terminators, as \<open>String.prototype.trim\<close> strips them.\<close>
  "is_ws c = ((of_char c :: nat) \<in> set [0x09, 0x0A, 0x0B, 0x0C, 0x0D, 0x20, 0xA0])"

definition trim :: "string \<Rightarrow> string" where
  "trim s = rev (dropWhile is_ws (rev (dropWhile is_ws s)))"

definition lower_char :: "char \<Rightarrow> char" where
  "lower_char c =
     (let n = (of_char c :: nat)
      in if (65 \<le> n \<and> n \<le> 90) \<or> (192 \<le> n \<and> n \<le> 222 \<and> n \<noteq> 215)
         then char_of (n + 32) else c)"

definition toLowerCase :: "string \<Rightarrow> string" where
  "toLowerCase s = map lower_char s"

definition is_digit :: "char \<Rightarrow> bool" where
  \<comment> \<open>The class \<open>\d\<close> of a regular expression without the unicode flag.\<close>
  "is_digit c = (48 \<le> (of_char c :: nat) \<and> (of_char c :: nat) \<le> 57)"

text \<open>
  \<open>s.split(sep)\<close> for a one-character separator. The result is never empty, so the
  function returns the first field and the list of the others.
\<close>

fun split1 :: "char \<Rightarrow> string \<Rightarrow> string \<times> string list" where
  "split1 sep [] = ([], [])"
| "split1 sep (c # cs) =
     (let (w, ws) = split1 sep cs
      in if c = sep then ([], w # ws) else (c # w, ws))"

definition split :: "char \<Rightarrow> string \<Rightarrow> string list" where
  "split sep s = (let (w, ws) = split1 sep s in w # ws)"

text \<open>
  \<open>text.split(/\r?\n/)\<close>: a line ends at a line feed, which takes a carriage return
  right before it along; a carriage return elsewhere stays in its line.
\<close>

fun split_lines1 :: "string \<Rightarrow> string \<times> string list" where
  "split_lines1 [] = ([], [])"
| "split_lines1 [c] = (if c = CHR 0x0A then ([], [[]]) else ([c], []))"
| "split_lines1 (c # d # cs) =
     (if c = CHR 0x0D \<and> d = CHR 0x0A then (let (w, ws) = split_lines1 cs in ([], w # ws))
      else if c = CHR 0x0A then (let (w, ws) = split_lines1 (d # cs) in ([], w # ws))
      else (let (w, ws) = split_lines1 (d # cs) in (c # w, ws)))"

fun indexOf :: "'a list \<Rightarrow> 'a \<Rightarrow> int" where
  "indexOf [] x = - 1"
| "indexOf (y # ys) x =
     (if y = x then 0 else (let r = indexOf ys x in if r = - 1 then - 1 else r + 1))"

text \<open>\<open>xs.join(sep)\<close> for an array of strings.\<close>

fun join :: "string \<Rightarrow> string list \<Rightarrow> string" where
  "join sep [] = []"
| "join sep [x] = x"
| "join sep (x # y # ys) = x @ sep @ join sep (y # ys)"

section \<open>Errors\<close>

text \<open>
  The program throws \<open>Error\<close> objects told apart by their messages; the constructors
  carry the names the specification gives them.
\<close>

datatype error =
    MissingColumnError
  | FileReadError
  | EmptyBatchError
  | NotFoundError string
  | FetchError string

fun message :: "error \<Rightarrow> string" where
  "message MissingColumnError = ''CSV must contain an '' @ [CHR 0x27] @ ''orcid'' @ [CHR 0x27] @ '' column.''"
| "message FileReadError = ''Failed to read file''"
| "message EmptyBatchError = ''No valid ORCID IDs found in file.''"
| "message (NotFoundError i) = ''ORCID '' @ i @ '' not found.''"
| "message (FetchError i) = ''Failed to fetch data for '' @ i"

text \<open>
  What a \<open>try\<close> block around a request can catch: an error that the program throws, or
  one that the runtime raises, when \<open>fetch\<close> rejects, when \<open>response.json()\<close> rejects,
  and when the program reads a property of \<open>null\<close> or \<open>undefined\<close> or calls what is not
  a function. The messages of the runtime's errors differ between engines and are not
  part of this development.
\<close>

datatype failure = Thrown error | NetworkFailure | MalformedBody | TypeError

section \<open>Numbers\<close>

text \<open>
  A number is a \<open>double\<close>. A \<open>double\<close> holds an integer exactly when the integer has at
  most 53 significant bits; \<open>round53 n\<close> is the integer that a \<open>double\<close> holds for a
  natural number \<open>n\<close>: the nearest one with 53 significant bits, the one with the even
  significand of two that are equally near. \<open>bits n\<close> is the length of \<open>n\<close> in binary.
\<close>

function bits :: "int \<Rightarrow> nat" where
  "bits n = (if n \<le> 0 then 0 else Suc (bits (n div 2)))"
  by pat_completeness auto
termination
  by (relation "measure nat") auto

declare bits.simps [simp del]

definition round53 :: "int \<Rightarrow> int" where
  "round53 n =
     (if bits n \<le> 53 then n
      else (let s = bits n - 53; q = n div 2 ^ s; r = n mod 2 ^ s; h = 2 ^ (s - 1)
            in (if h < r \<or> (r = h \<and> odd q) then q + 1 else q) * 2 ^ s))"

text \<open>
  The numbers of the program that are not counts are years. A year is what \<open>parseInt\<close>
  returns: \<open>NaN\<close>, an infinity, or an integer that a \<open>double\<close> holds. \<open>Fin i\<close> is the
  \<open>double\<close> of such an integer; zero and negative zero are both \<open>Fin 0\<close>, since the
  program only tests and prints them. \<open>to_number i\<close> is the \<open>double\<close> nearest to an
  integer \<open>i\<close>, an infinity from \<open>2\<^sup>1\<^sup>0\<^sup>2\<^sup>4\<close> on.
\<close>

datatype number = NaN | Fin int | PosInf | NegInf

definition to_number :: "int \<Rightarrow> number" where
  "to_number i =
     (let m = round53 \<bar>i\<bar>
      in if 2 ^ 1024 \<le> m then (if i < 0 then NegInf else PosInf)
         else Fin (if i < 0 then - m else m))"

definition double_int :: "int \<Rightarrow> bool" where
  \<comment> \<open>an integer that a \<open>double\<close> holds\<close>
  "double_int i = (round53 \<bar>i\<bar> = \<bar>i\<bar> \<and> \<bar>i\<bar> < 2 ^ 1024)"

fun truthy_number :: "number \<Rightarrow> bool" where
  "truthy_number NaN = False"
| "truthy_number (Fin i) = (i \<noteq> 0)"
| "truthy_number PosInf = True"
| "truthy_number NegInf = True"

fun minus_number :: "number \<Rightarrow> number \<Rightarrow> number" where
  "minus_number (Fin a) (Fin b) = to_number (a - b)"
| "minus_number NaN b = NaN"
| "minus_number a NaN = NaN"
| "minus_number PosInf PosInf = NaN"
| "minus_number NegInf NegInf = NaN"
| "minus_number PosInf b = PosInf"
| "minus_number NegInf b = NegInf"
| "minus_number (Fin a) PosInf = NegInf"
| "minus_number (Fin a) NegInf = PosInf"

fun positive :: "number \<Rightarrow> bool" where
  "positive NaN = False"
| "positive (Fin i) = (0 < i)"
| "positive PosInf = True"
| "positive NegInf = False"

text \<open>The decimal digits of an integer that is not negative.\<close>

function decimal :: "int \<Rightarrow> string" where
  "decimal i = (if i < 10 then [char_of (48 + i)] else decimal (i div 10) @ [char_of (48 + i mod 10)])"
  by pat_completeness auto
termination
  by (relation "measure nat") auto

declare decimal.simps [simp del]

definition show_nat :: "nat \<Rightarrow> string" where
  \<comment> \<open>\<open>String(n)\<close> for a count, which is far below \<open>2\<^sup>5\<^sup>3\<close>\<close>
  "show_nat n = decimal (int n)"

text \<open>
  \<open>String(x)\<close> for a number \<open>x\<close>. Of the decimal numbers that \<open>x\<close> is the nearest
  \<open>double\<close> to, the text shows one with the fewest significant digits, and of these
  the one nearest to \<open>x\<close> (of two equally near, the one whose last digit is even):
  \<open>shortest x\<close>, found by trying one digit, two digits and so on. Below \<open>10\<^sup>2\<^sup>1\<close>
  the text is that number in decimal, from there on its digits with an exponent.
\<close>

function shortest_from :: "int \<Rightarrow> nat \<Rightarrow> nat \<Rightarrow> int" where
  "shortest_from x n k =
     (if n \<le> k then x
      else (let p = 10 ^ (n - k); lo = x div p * p; hi = lo + p
            in if round53 lo = x \<and> round53 hi = x
               then (if x - lo < hi - x then lo
                     else if hi - x < x - lo then hi
                     else if even (x div p) then lo else hi)
               else if round53 lo = x then lo
               else if round53 hi = x then hi
               else shortest_from x n (Suc k)))"
  by pat_completeness auto
termination
  by (relation "measure (\<lambda>(x, n, k). n - k)") auto

declare shortest_from.simps [simp del]

definition shortest :: "int \<Rightarrow> int" where
  "shortest x = shortest_from x (length (decimal x)) 1"

definition exponent_text :: "int \<Rightarrow> string" where
  "exponent_text v =
     (let ds = decimal v;
          sig = rev (dropWhile (\<lambda>c. c = CHR ''0'') (rev ds))
      in (case sig of [] \<Rightarrow> [] | d # rest \<Rightarrow> d # (if rest = [] then [] else CHR ''.'' # rest))
         @ ''e+'' @ decimal (int (length ds) - 1))"

definition digits_text :: "int \<Rightarrow> string" where
  "digits_text x = (let v = shortest x in if v < 10 ^ 21 then decimal v else exponent_text v)"

fun number_to_string :: "number \<Rightarrow> string" where
  "number_to_string NaN = ''NaN''"
| "number_to_string PosInf = ''Infinity''"
| "number_to_string NegInf = ''-Infinity''"
| "number_to_string (Fin i) = (if i < 0 then CHR ''-'' # digits_text (- i) else digits_text i)"

text \<open>
  \<open>parseInt(s, radix)\<close>: leading white space and a sign are skipped, a \<open>0x\<close> prefix
  selects radix 16 when the radix is absent or 16, and the longest prefix of digits of
  the radix is read; no digit gives \<open>NaN\<close>. The result is the \<open>double\<close> nearest to the
  integer read (an engine may read a number of more than 20 digits less exactly; this
  one does not).
\<close>

definition digit_of :: "char \<Rightarrow> nat option" where
  "digit_of c =
     (let n = (of_char c :: nat)
      in if 48 \<le> n \<and> n \<le> 57 then Some (n - 48)
         else if 97 \<le> n \<and> n \<le> 122 then Some (n - 87)
         else if 65 \<le> n \<and> n \<le> 90 then Some (n - 55)
         else None)"

definition in_radix :: "nat \<Rightarrow> char \<Rightarrow> bool" where
  "in_radix r c = (case digit_of c of None \<Rightarrow> False | Some d \<Rightarrow> d < r)"

definition radix_value :: "nat \<Rightarrow> string \<Rightarrow> int" where
  "radix_value r ds =
     foldl (\<lambda>a c. int r * a + (case digit_of c of None \<Rightarrow> 0 | Some d \<Rightarrow> int d)) 0 ds"

definition hex_prefix :: "string \<Rightarrow> bool" where
  "hex_prefix s = (take 2 s = ''0x'' \<or> take 2 s = ''0X'')"

definition parseInt :: "string \<Rightarrow> nat option \<Rightarrow> number" where
  "parseInt s radix =
     (let s1 = dropWhile is_ws s;
          (sign, s2) = (case s1 of [] \<Rightarrow> (1, s1)
                        | c # cs \<Rightarrow> if c = CHR ''-'' then (- 1, cs)
                                    else if c = CHR ''+'' then (1, cs) else (1::int, s1));
          r0 = (case radix of None \<Rightarrow> 0 | Some r \<Rightarrow> r);
          strip = (r0 = 0 \<or> r0 = 16) \<and> hex_prefix s2;
          r = (if strip then 16 else if r0 = 0 then 10 else r0);
          s3 = (if strip then drop 2 s2 else s2);
          ds = takeWhile (in_radix r) s3
      in if r < 2 \<or> 36 < r then NaN
         else if ds = [] then NaN
         else to_number (sign * radix_value r ds))"

text \<open>
  A number between 0 and 1 is a real number that is a \<open>double\<close>: a multiple of
  \<open>2\<^sup>-\<^sup>1\<^sup>0\<^sup>7\<^sup>4\<close>, the finest step, with at most 53 significant bits.
  \<open>times_double x n\<close> is the product \<open>x * n\<close> as the program computes it, for a
  \<open>double\<close> \<open>x\<close> that is not negative and a count \<open>n\<close>: the exact product rounded to
  a \<open>double\<close> (the products of the program are below 20, far from the largest
  \<open>double\<close>).
\<close>

definition double_steps :: "real \<Rightarrow> int" where
  "double_steps x = \<lfloor>x * 2 ^ 1074\<rfloor>"

definition is_double :: "real \<Rightarrow> bool" where
  "is_double x =
     (0 \<le> x \<and> x < 2 ^ 1024 \<and> of_int (double_steps x) = x * 2 ^ 1074
      \<and> round53 (double_steps x) = double_steps x)"

definition times_double :: "real \<Rightarrow> nat \<Rightarrow> real" where
  "times_double x n = of_int (round53 (double_steps x * int n)) / 2 ^ 1074"

section \<open>JSON values\<close>

text \<open>
  What \<open>response.json()\<close> returns, and \<open>undefined\<close>, which reading a missing property
  gives. Numbers in a response body are integers. An object is the list of its
  properties; \<open>JSON.parse\<close> keeps one value for a key.
\<close>

datatype js =
    JUndefined
  | JNull
  | JBool bool
  | JNum int
  | JStr string
  | JArr "js list"
  | JObj "(string \<times> js) list"

section \<open>Objects as dictionaries\<close>

text \<open>
  A plain object used as a dictionary is the list of its own properties in creation
  order. Assigning to an existing key keeps its place; a new key goes to the end.
\<close>

type_synonym 'v obj = "(string \<times> 'v) list"

definition obj_get :: "'v obj \<Rightarrow> string \<Rightarrow> 'v option" where
  "obj_get ob k = map_of ob k"

fun obj_set :: "'v obj \<Rightarrow> string \<Rightarrow> 'v \<Rightarrow> 'v obj" where
  "obj_set [] k v = [(k, v)]"
| "obj_set (p # ps) k v = (if fst p = k then (k, v) # ps else p # obj_set ps k v)"

text \<open>
  A key that the object does not own is looked up in \<open>Object.prototype\<close>. Its members
  are functions, under the names of \<open>object_prototype\<close>, and the accessor \<open>__proto__\<close>,
  which reads as \<open>Object.prototype\<close> itself and ignores the assignment of a value that is
  not an object.
\<close>

definition object_prototype :: "string list" where
  "object_prototype =
     [''constructor'', ''__defineGetter__'', ''__defineSetter__'', ''hasOwnProperty'',
      ''__lookupGetter__'', ''__lookupSetter__'', ''isPrototypeOf'', ''propertyIsEnumerable'',
      ''toString'', ''valueOf'', ''toLocaleString'']"

definition prototype_member :: "string \<Rightarrow> bool" where
  "prototype_member k = (k = ''__proto__'' \<or> k \<in> set object_prototype)"

text \<open>
  \<open>Object.entries\<close> lists the array-index keys first, in ascending numeric order, then
  the other keys in creation order. An array index is the decimal form of a number below
  \<open>2\<^sup>3\<^sup>2 - 1\<close>.
\<close>

definition array_index :: "string \<Rightarrow> int option" where
  "array_index k =
     (if k \<noteq> [] \<and> list_all is_digit k \<and> radix_value 10 k < 4294967295
         \<and> decimal (radix_value 10 k) = k
      then Some (radix_value 10 k) else None)"

definition property_order :: "('a \<Rightarrow> string) \<Rightarrow> 'a list \<Rightarrow> 'a list" where
  "property_order key xs =
     map snd (sort_key fst (List.map_filter (\<lambda>x. map_option (\<lambda>n. (n, x)) (array_index (key x))) xs))
     @ filter (\<lambda>x. array_index (key x) = None) xs"

definition entries :: "'v obj \<Rightarrow> (string \<times> 'v) list" where
  "entries ob = property_order fst ob"

text \<open>
  \<open>xs.sort(cmp)\<close> is stable; for a comparator that is a consistent order, every stable
  sort returns the list that insertion does (for another comparator the order is the
  engine's choice, and insertion is one choice). A comparator result that is not a
  number counts as zero.
\<close>

fun insert_by :: "('a \<Rightarrow> 'a \<Rightarrow> number) \<Rightarrow> 'a \<Rightarrow> 'a list \<Rightarrow> 'a list" where
  "insert_by cmp x [] = [x]"
| "insert_by cmp x (y # ys) = (if positive (cmp x y) then y # insert_by cmp x ys else x # y # ys)"

definition sort_by :: "('a \<Rightarrow> 'a \<Rightarrow> number) \<Rightarrow> 'a list \<Rightarrow> 'a list" where
  "sort_by cmp xs = foldr (insert_by cmp) xs []"

section \<open>Identifier Extractor: \<open>parseCsvFile\<close>\<close>

text \<open>
  The regular expression \<open>/^(\d{4}-){3}\d{3}[\dX]$/\<close>. A matcher consumes a prefix of
  its input and returns the rest; none of the pieces below has a choice to backtrack over.
\<close>

type_synonym matcher = "string \<Rightarrow> string option"

definition m_digit :: matcher where
  "m_digit s = (case s of [] \<Rightarrow> None | c # cs \<Rightarrow> if is_digit c then Some cs else None)"

definition m_char :: "char \<Rightarrow> matcher" where
  "m_char x s = (case s of [] \<Rightarrow> None | c # cs \<Rightarrow> if c = x then Some cs else None)"

definition m_digit_or_X :: matcher where
  "m_digit_or_X s =
     (case s of [] \<Rightarrow> None | c # cs \<Rightarrow> if is_digit c \<or> c = CHR ''X'' then Some cs else None)"

definition m_seq :: "matcher \<Rightarrow> matcher \<Rightarrow> matcher" where
  "m_seq p q s = (case p s of None \<Rightarrow> None | Some r \<Rightarrow> q r)"

fun m_rep :: "nat \<Rightarrow> matcher \<Rightarrow> matcher" where
  "m_rep 0 p s = Some s"
| "m_rep (Suc n) p s = (case p s of None \<Rightarrow> None | Some r \<Rightarrow> m_rep n p r)"

definition orcid_re :: "string \<Rightarrow> bool" where
  \<comment> \<open>\<open>id.match(/^(\d{4}-){3}\d{3}[\dX]$/)\<close> is not null.\<close>
  "orcid_re s =
     (m_seq (m_rep 3 (m_seq (m_rep 4 m_digit) (m_char CHR ''-'')))
        (m_seq (m_rep 3 m_digit) m_digit_or_X) s = Some [])"

text \<open>The loop over \<open>lines[1..]\<close>; \<open>ids.push\<close> appends.\<close>

fun scan_rows :: "int \<Rightarrow> string list \<Rightarrow> string list \<Rightarrow> string list" where
  "scan_rows orcidIndex [] ids = ids"
| "scan_rows orcidIndex (l # ls) ids =
     (let columns = split CHR '','' l
      in if int (length columns) > orcidIndex
         then (let i = trim (columns ! nat orcidIndex)
               in if orcid_re i then scan_rows orcidIndex ls (ids @ [i])
                  else scan_rows orcidIndex ls ids)
         else scan_rows orcidIndex ls ids)"

definition parseCsvText :: "string \<Rightarrow> error + string list" where
  \<comment> \<open>The \<open>onload\<close> handler.\<close>
  "parseCsvText text =
     (let (line0, rest) = split_lines1 text;
          header = map trim (split CHR '','' (toLowerCase line0));
          orcidIndex = indexOf header ''orcid''
      in if orcidIndex = - 1 then Inl MissingColumnError
         else Inr (scan_rows orcidIndex rest []))"

datatype csv_file = Unreadable | Readable string

fun parseCsvFile :: "csv_file \<Rightarrow> error + string list" where
  "parseCsvFile Unreadable = Inl FileReadError"
| "parseCsvFile (Readable text) = parseCsvText text"

subsection \<open>Notions for the contract of the Identifier Extractor\<close>

text \<open>
  The header row is the first line, its cells the comma-separated fields. A header cell
  names the identifier column when it equals \<open>orcid\<close> after trimming, compared without
  regard to case. The identifier column is the first such cell.
\<close>

definition header_cells :: "string \<Rightarrow> string list" where
  "header_cells text = split CHR '','' (fst (split_lines1 text))"

definition data_rows :: "string \<Rightarrow> string list list" where
  "data_rows text = map (split CHR '','') (snd (split_lines1 text))"

definition is_orcid_header :: "string \<Rightarrow> bool" where
  "is_orcid_header cell = (toLowerCase (trim cell) = ''orcid'')"

definition has_orcid_header :: "string \<Rightarrow> bool" where
  "has_orcid_header text = list_ex is_orcid_header (header_cells text)"

definition orcid_column :: "string \<Rightarrow> nat" where
  "orcid_column text = length (takeWhile (\<lambda>cell. \<not> is_orcid_header cell) (header_cells text))"

text \<open>
  The structural pattern: four groups of four characters separated by hyphens, the first
  \<open>k\<close> characters of the groups digits, the final character a digit or \<open>X\<close>. The
  specification's sentence has \<open>k = 12\<close>.
\<close>

definition structural_pattern :: "nat \<Rightarrow> string \<Rightarrow> bool" where
  "structural_pattern k s =
     (let groups = split CHR ''-'' s
      in length groups = 4 \<and> list_all (\<lambda>g. length g = 4) groups
         \<and> list_all is_digit (take k (concat groups))
         \<and> (is_digit (last s) \<or> last s = CHR ''X''))"

section \<open>Aggregator: the \<open>stats\<close> of \<open>App\<close>\<close>

text \<open>
  \<open>OrcidWork\<close>, \<open>OrcidProfileData\<close> and \<open>AnalysisStats\<close> of \<open>types.ts\<close>. A field that
  may be \<open>null\<close> or \<open>undefined\<close> is an option. The quotient of two counts is the exact
  one: its rounding to a \<open>double\<close> is not modelled. A histogram entry is the pair of its
  two fields.

  What the counting stores under a key is a number, \<open>Count n\<close>, unless the key names a
  function of \<open>Object.prototype\<close>: then \<open>counts[k] || 0\<close> is that function, and adding 1
  to it gives a string. \<open>Junk k n\<close> is that string: the text of the function under the
  name \<open>k\<close>, followed by \<open>n\<close> digits \<open>1\<close>. As a number it is \<open>NaN\<close>.
\<close>

datatype count = Count nat | Junk string nat

fun count_number :: "count \<Rightarrow> number" where
  "count_number (Count n) = Fin (int n)"
| "count_number (Junk k n) = NaN"

text \<open>
  \<open>String(c)\<close> for what the counting stores. The function that \<open>Object.prototype\<close> has
  under the name \<open>constructor\<close> is \<open>Object\<close>; under any other name, a function of that
  name. The text of a built-in function is written as V8 and JavaScriptCore write it;
  other engines set the white space differently.
\<close>

definition function_text :: "string \<Rightarrow> string" where
  "function_text k =
     ''function '' @ (if k = ''constructor'' then ''Object'' else k) @ ''() { [native code] }''"

fun count_text :: "count \<Rightarrow> string" where
  "count_text (Count n) = show_nat n"
| "count_text (Junk k n) = function_text k @ replicate n CHR ''1''"

record OrcidWork =
  title :: js
  year :: "number option"
  type :: "string option"
  putCode :: js
  doi :: js

record OrcidProfileData =
  orcidId :: string
  fullName :: string
  works :: "OrcidWork list"

record AnalysisStats =
  totalResearchers :: nat
  totalPublications :: nat
  avgPublications :: real
  publicationsByYear :: "(number \<times> count) list"
  publicationsByType :: "(string \<times> count) list"
  processedProfiles :: "OrcidProfileData list"

definition increment :: "count obj \<Rightarrow> string \<Rightarrow> count obj" where
  \<comment> \<open>\<open>counts[k] = (counts[k] || 0) + 1\<close>\<close>
  "increment counts k =
     (case obj_get counts k of
        Some (Count c) \<Rightarrow> obj_set counts k (Count ((if c \<noteq> 0 then c else 0) + 1))
      | Some (Junk m n) \<Rightarrow> obj_set counts k (Junk m (n + 1))
      | None \<Rightarrow>
          if k = ''__proto__'' then counts
          else if k \<in> set object_prototype then obj_set counts k (Junk k 1)
          else obj_set counts k (Count (0 + 1)))"

definition count_work :: "OrcidWork \<Rightarrow> count obj \<times> count obj \<Rightarrow> count obj \<times> count obj" where
  \<comment> \<open>The body of the inner \<open>forEach\<close>.\<close>
  "count_work work acc =
     (let (yearCounts, typeCounts) = acc;
          yearCounts' = (case year work of
                           None \<Rightarrow> yearCounts
                         | Some y \<Rightarrow> if truthy_number y then increment yearCounts (number_to_string y)
                                     else yearCounts);
          type' = (case type work of None \<Rightarrow> ''Other'' | Some t \<Rightarrow> if t \<noteq> [] then t else ''Other'')
      in (yearCounts', increment typeCounts type'))"

definition count_profile ::
  "OrcidProfileData \<Rightarrow> nat \<times> count obj \<times> count obj \<Rightarrow> nat \<times> count obj \<times> count obj" where
  \<comment> \<open>The body of the outer \<open>forEach\<close>.\<close>
  "count_profile profile acc =
     (let (totalPubs, counts) = acc
      in (totalPubs + length (works profile), fold count_work (works profile) counts))"

definition stats :: "OrcidProfileData list \<Rightarrow> AnalysisStats option" where
  "stats data =
     (if length data = 0 then None
      else
        (let totalResearchers = length data;
             (totalPubs, yearCounts, typeCounts) = fold count_profile data (0, [], []);
             publicationsByYear =
               sort_by (\<lambda>a b. minus_number (fst a) (fst b))
                 (map (\<lambda>(year, count). (parseInt year None, count)) (entries yearCounts));
             publicationsByType =
               sort_by (\<lambda>a b. minus_number (count_number (snd b)) (count_number (snd a)))
                 (entries typeCounts)
         in Some \<lparr> totalResearchers = totalResearchers,
                   totalPublications = totalPubs,
                   avgPublications =
                     (if totalResearchers > 0 then real totalPubs / real totalResearchers else 0),
                   publicationsByYear = publicationsByYear,
                   publicationsByType = publicationsByType,
                   processedProfiles = data \<rparr>))"

subsection \<open>Notions for the contract of the Aggregator\<close>

text \<open>
  The works of all profiles, in order; the label a work is counted under (\<open>Other\<close> for
  a type that is missing or empty); the labels in the order they are first seen; a
  year that \<open>String\<close> writes in digits and \<open>parseInt\<close> reads back: none, \<open>NaN\<close>, or an
  integer below \<open>10\<^sup>2\<^sup>1\<close> in magnitude.
\<close>

definition all_works :: "OrcidProfileData list \<Rightarrow> OrcidWork list" where
  "all_works data = concat (map works data)"

definition type_label :: "OrcidWork \<Rightarrow> string" where
  "type_label w = (case type w of None \<Rightarrow> ''Other'' | Some t \<Rightarrow> if t = [] then ''Other'' else t)"

fun first_seen :: "'a list \<Rightarrow> 'a list" where
  "first_seen [] = []"
| "first_seen (x # xs) = x # removeAll x (first_seen xs)"

fun digit_year :: "number option \<Rightarrow> bool" where
  "digit_year None = True"
| "digit_year (Some NaN) = True"
| "digit_year (Some (Fin i)) = (double_int i \<and> \<bar>i\<bar> < 10 ^ 21)"
| "digit_year (Some PosInf) = False"
| "digit_year (Some NegInf) = False"

subsection \<open>Auxiliary notions\<close>

text \<open>
  For the proofs: counting keys into a dictionary of numbers, which is what the
  counting does with keys that name no member of \<open>Object.prototype\<close>; the key of an
  integer year, and the keys the years of a list of works are counted under; the year
  a work is counted under, if it is an integer; the integer of a number. Then two constructors for
  examples.
\<close>

definition bump :: "nat obj \<Rightarrow> string \<Rightarrow> nat obj" where
  "bump counts k = obj_set counts k ((case obj_get counts k of None \<Rightarrow> 0 | Some c \<Rightarrow> c) + 1)"

definition tally :: "nat obj \<Rightarrow> string list \<Rightarrow> nat obj" where
  "tally ob ks = fold (\<lambda>k counts. bump counts k) ks ob"

definition counts_of :: "('a \<times> nat) list \<Rightarrow> ('a \<times> count) list" where
  "counts_of ob = map (\<lambda>(k, c). (k, Count c)) ob"

definition year_key :: "int \<Rightarrow> string" where
  "year_key y = number_to_string (Fin y)"

definition year_keys :: "OrcidWork list \<Rightarrow> string list" where
  "year_keys ws =
     List.map_filter
       (\<lambda>w. case year w of None \<Rightarrow> None
             | Some y \<Rightarrow> if truthy_number y then Some (number_to_string y) else None) ws"

definition counted_year :: "OrcidWork \<Rightarrow> int option" where
  "counted_year w =
     (case year w of Some (Fin y) \<Rightarrow> if y = 0 then None else Some y | _ \<Rightarrow> None)"

definition counted_years :: "OrcidWork list \<Rightarrow> int list" where
  "counted_years ws = List.map_filter counted_year ws"

fun int_of :: "number \<Rightarrow> int" where
  "int_of (Fin i) = i"
| "int_of y = 0"

definition work_of :: "number option \<Rightarrow> string option \<Rightarrow> OrcidWork" where
  "work_of y t = \<lparr>title = JStr ''Untitled'', year = y, type = t, putCode = JNum 1, doi = JUndefined\<rparr>"

definition profile_of :: "OrcidWork list \<Rightarrow> OrcidProfileData" where
  "profile_of ws = \<lparr>orcidId = ''0000-0002-1825-0097'', fullName = ''Researcher'', works = ws\<rparr>"

section \<open>Reading JSON values\<close>

text \<open>
  Truthiness, reading a property (\<open>v[k]\<close> throws on \<open>null\<close> and \<open>undefined\<close>), optional
  chaining (\<open>v?.[k]\<close>), and \<open>String(v)\<close>. Of the members that a value inherits from
  its prototype there are \<open>length\<close> and what the program calls: \<open>map\<close> and \<open>find\<close> of
  an array, \<open>replace\<close> of a string; the other names that the program reads are names
  of no inherited member.
\<close>

fun truthy :: "js \<Rightarrow> bool" where
  "truthy JUndefined = False"
| "truthy JNull = False"
| "truthy (JBool b) = b"
| "truthy (JNum n) = (n \<noteq> 0)"
| "truthy (JStr s) = (s \<noteq> [])"
| "truthy (JArr xs) = True"
| "truthy (JObj ps) = True"

definition nullish :: "js \<Rightarrow> bool" where
  "nullish v = (v = JUndefined \<or> v = JNull)"

definition and_then :: "failure + 'a \<Rightarrow> ('a \<Rightarrow> failure + 'b) \<Rightarrow> failure + 'b" where
  "and_then r f = (case r of Inl e \<Rightarrow> Inl e | Inr x \<Rightarrow> f x)"

definition element :: "'a list \<Rightarrow> int \<Rightarrow> 'a option" where
  \<comment> \<open>\<open>xs[i]\<close>: \<open>undefined\<close> out of range\<close>
  "element xs i = (if 0 \<le> i \<and> i < int (length xs) then Some (xs ! nat i) else None)"

fun get :: "js \<Rightarrow> string \<Rightarrow> failure + js" where
  "get JUndefined k = Inl TypeError"
| "get JNull k = Inl TypeError"
| "get (JObj ps) k = Inr (case map_of ps k of None \<Rightarrow> JUndefined | Some v \<Rightarrow> v)"
| "get (JArr xs) k =
     Inr (if k = ''length'' then JNum (int (length xs))
          else case array_index k of
                 None \<Rightarrow> JUndefined
               | Some i \<Rightarrow> (case element xs i of None \<Rightarrow> JUndefined | Some v \<Rightarrow> v))"
| "get (JStr s) k =
     Inr (if k = ''length'' then JNum (int (length s))
          else case array_index k of
                 None \<Rightarrow> JUndefined
               | Some i \<Rightarrow> (case element s i of None \<Rightarrow> JUndefined | Some c \<Rightarrow> JStr [c]))"
| "get (JBool b) k = Inr JUndefined"
| "get (JNum n) k = Inr JUndefined"

definition opt_get :: "js \<Rightarrow> string \<Rightarrow> failure + js" where
  "opt_get v k = (if nullish v then Inr JUndefined else get v k)"

fun traverse :: "('a \<Rightarrow> failure + 'b) \<Rightarrow> 'a list \<Rightarrow> failure + 'b list" where
  "traverse f [] = Inr []"
| "traverse f (x # xs) = and_then (f x) (\<lambda>y. and_then (traverse f xs) (\<lambda>ys. Inr (y # ys)))"

definition js_map :: "js \<Rightarrow> (js \<Rightarrow> failure + 'b) \<Rightarrow> failure + 'b list" where
  \<comment> \<open>\<open>v.map(f)\<close>\<close>
  "js_map v f = (case v of JArr xs \<Rightarrow> traverse f xs | _ \<Rightarrow> Inl TypeError)"

fun find_first :: "(js \<Rightarrow> failure + bool) \<Rightarrow> js list \<Rightarrow> failure + js" where
  "find_first p [] = Inr JUndefined"
| "find_first p (x # xs) = and_then (p x) (\<lambda>b. if b then Inr x else find_first p xs)"

definition opt_find :: "js \<Rightarrow> (js \<Rightarrow> failure + bool) \<Rightarrow> failure + js" where
  \<comment> \<open>\<open>v?.find(p)\<close>\<close>
  "opt_find v p =
     (if nullish v then Inr JUndefined
      else case v of JArr xs \<Rightarrow> find_first p xs | _ \<Rightarrow> Inl TypeError)"

definition replace_underscores :: "js \<Rightarrow> failure + string" where
  \<comment> \<open>\<open>v.replace(/_/g, ' ')\<close>\<close>
  "replace_underscores v =
     (case v of JStr s \<Rightarrow> Inr (map (\<lambda>c. if c = CHR ''_'' then CHR '' '' else c) s)
      | _ \<Rightarrow> Inl TypeError)"

text \<open>
  \<open>String(v)\<close>. An array is its elements joined by commas, \<open>null\<close> and \<open>undefined\<close>
  elements empty. An object is \<open>[object Object]\<close>; with a \<open>toString\<close> property of its
  own, which a JSON value cannot make callable, the conversion throws.
\<close>

fun to_string :: "js \<Rightarrow> failure + string"
  and to_strings :: "js list \<Rightarrow> failure + string list" where
  "to_string JUndefined = Inr ''undefined''"
| "to_string JNull = Inr ''null''"
| "to_string (JBool b) = Inr (if b then ''true'' else ''false'')"
| "to_string (JNum n) = Inr (number_to_string (to_number n))"
| "to_string (JStr s) = Inr s"
| "to_string (JArr xs) = and_then (to_strings xs) (\<lambda>ss. Inr (join '','' ss))"
| "to_string (JObj ps) =
     (if ''toString'' \<in> fst ` set ps then Inl TypeError else Inr ''[object Object]'')"
| "to_strings [] = Inr []"
| "to_strings (x # xs) =
     and_then (if x = JUndefined \<or> x = JNull then Inr [] else to_string x)
       (\<lambda>s. and_then (to_strings xs) (\<lambda>ss. Inr (s # ss)))"

section \<open>Record Fetcher: \<open>fetchOrcidData\<close>\<close>

text \<open>
  The world the fetcher runs in: what the network answers to the \<open>n\<close>-th request, the
  numbers \<open>Math.random\<close> returns, and the log of what has happened. \<open>fetch\<close> rejects on
  a network error; otherwise there is a status and a body, which \<open>response.json()\<close>
  parses or rejects. A warning whose text ends with \<open>${error}\<close> is logged as the text
  before it and the error: for an error of the program the text ends with \<open>Error: \<close>
  and its message, for one of the runtime with the words of the engine.
\<close>

datatype http_outcome = NetworkError | Response nat "js option"

datatype event = Request string | Warn string | WarnReason string failure | Sleep nat

record world =
  network :: "nat \<Rightarrow> string \<Rightarrow> http_outcome"
  random :: "nat \<Rightarrow> real"
  sent :: nat
  drawn :: nat
  events :: "event list"

definition fetch :: "string \<Rightarrow> world \<Rightarrow> http_outcome \<times> world" where
  "fetch url w =
     (network w (sent w) url, w\<lparr> sent := sent w + 1, events := events w @ [Request url] \<rparr>)"

definition math_random :: "world \<Rightarrow> real \<times> world" where
  "math_random w = (random w (drawn w), w\<lparr> drawn := drawn w + 1 \<rparr>)"

definition console_warn :: "string \<Rightarrow> world \<Rightarrow> world" where
  "console_warn msg w = w\<lparr> events := events w @ [Warn msg] \<rparr>"

definition console_warn_reason :: "string \<Rightarrow> failure \<Rightarrow> world \<Rightarrow> world" where
  \<comment> \<open>\<open>console.warn(`msg${error}`)\<close>\<close>
  "console_warn_reason msg e w = w\<lparr> events := events w @ [WarnReason msg e] \<rparr>"

definition set_timeout :: "nat \<Rightarrow> world \<Rightarrow> world" where
  "set_timeout ms w = w\<lparr> events := events w @ [Sleep ms] \<rparr>"

definition ORCID_API_BASE :: string where
  "ORCID_API_BASE = ''https://pub.orcid.org/v3.0''"

definition years :: "int list" where
  "years = [2018, 2019, 2020, 2021, 2022, 2023, 2024]"

definition types :: "string list" where
  "types = [''JOURNAL_ARTICLE'', ''CONFERENCE_PAPER'', ''BOOK_CHAPTER'', ''BOOK'']"

fun mock_works :: "string \<Rightarrow> nat \<Rightarrow> nat \<Rightarrow> world \<Rightarrow> OrcidWork list \<times> world" where
  \<comment> \<open>The \<open>map\<close> over \<open>Array.from({length})\<close>, from index \<open>i\<close> on.\<close>
  "mock_works orcid i 0 w = ([], w)"
| "mock_works orcid i (Suc k) w =
     (let (r1, w1) = math_random w;
          (r2, w2) = math_random w1;
          work = \<lparr> title = JStr (''Sample Research Publication '' @ show_nat (i + 1) @ '' for '' @ orcid),
                   year = map_option Fin (element years \<lfloor>times_double r1 (length years)\<rfloor>),
                   type = element types \<lfloor>times_double r2 (length types)\<rfloor>,
                   putCode = JStr (''mock-'' @ show_nat i),
                   doi = JStr (''10.1000/mock.'' @ show_nat i) \<rparr>;
          (rest, w3) = mock_works orcid (i + 1) k w2
      in (work # rest, w3))"

definition generateMockData :: "string \<Rightarrow> world \<Rightarrow> OrcidProfileData \<times> world" where
  "generateMockData orcid w =
     (let (r, w1) = math_random w;
          (works, w2) = mock_works orcid 0 (nat (\<lfloor>times_double r 20\<rfloor> + 5)) w1
      in (\<lparr> orcidId = orcid, fullName = ''Researcher '' @ take 4 orcid, works = works \<rparr>, w2))"

definition is_doi :: "js \<Rightarrow> failure + bool" where
  "is_doi i = and_then (get i ''external-id-type'') (\<lambda>t. Inr (t = JStr ''doi''))"

definition work_of_group :: "js \<Rightarrow> failure + OrcidWork" where
  "work_of_group grp =
     and_then (get grp ''work-summary'') (\<lambda>summaries.
     and_then (get summaries ''0'') (\<lambda>summary.
     and_then (get summary ''publication-date'') (\<lambda>date.
     and_then (opt_get date ''year'') (\<lambda>y.
     and_then (opt_get y ''value'') (\<lambda>yearStr.
     and_then (get summary ''title'') (\<lambda>t1.
     and_then (opt_get t1 ''title'') (\<lambda>t2.
     and_then (opt_get t2 ''value'') (\<lambda>t3.
     and_then (if truthy yearStr
               then and_then (to_string yearStr) (\<lambda>s. Inr (Some (parseInt s (Some 10))))
               else Inr None) (\<lambda>year'.
     and_then (get summary ''type'') (\<lambda>ty.
     and_then (if truthy ty then replace_underscores ty else Inr ''UNKNOWN'') (\<lambda>type'.
     and_then (get summary ''put-code'') (\<lambda>code.
     and_then (get summary ''external-ids'') (\<lambda>ids.
     and_then (opt_get ids ''external-id'') (\<lambda>idlist.
     and_then (opt_find idlist is_doi) (\<lambda>found.
     and_then (opt_get found ''external-id-value'') (\<lambda>doi'.
       Inr \<lparr> title = (if truthy t3 then t3 else JStr ''Untitled''),
             year = year',
             type = Some type',
             putCode = code,
             doi = doi' \<rparr>))))))))))))))))"

definition fetch_try :: "string \<Rightarrow> http_outcome \<Rightarrow> failure + OrcidProfileData" where
  \<comment> \<open>The \<open>try\<close> block, after \<open>fetch\<close> has settled.\<close>
  "fetch_try cleanId outcome =
     (case outcome of
        NetworkError \<Rightarrow> Inl NetworkFailure
      | Response status body \<Rightarrow>
          if \<not> (200 \<le> status \<and> status \<le> 299)
          then (if status = 404 then Inl (Thrown (NotFoundError cleanId))
                else Inl (Thrown (FetchError cleanId)))
          else (case body of
                  None \<Rightarrow> Inl MalformedBody
                | Some data \<Rightarrow>
                    and_then (get data ''group'') (\<lambda>g.
                    and_then (js_map (if truthy g then g else JArr []) work_of_group) (\<lambda>works.
                      Inr \<lparr> orcidId = cleanId,
                            fullName = ''Researcher '' @ cleanId,
                            works = works \<rparr>))))"

definition request_url :: "string \<Rightarrow> string" where
  "request_url cleanId = ORCID_API_BASE @ ''/'' @ cleanId @ ''/works''"

definition fetchOrcidData :: "string \<Rightarrow> world \<Rightarrow> (error + OrcidProfileData) \<times> world" where
  "fetchOrcidData orcid w =
     (let cleanId = trim orcid;
          (outcome, w1) = fetch (request_url cleanId) w
      in case fetch_try cleanId outcome of
           Inr profile \<Rightarrow> (Inr profile, w1)
         | Inl e \<Rightarrow>
             (let w2 = console_warn_reason (''API fetch failed for '' @ cleanId
                         @ '', using mock data for demonstration. Reason: '') e w1;
                  w3 = set_timeout 500 w2;
                  (profile, w4) = generateMockData cleanId w3
              in (Inr profile, w4)))"

subsection \<open>Notions for the contract of the Record Fetcher\<close>

text \<open>
  The value at a path of property names (\<open>undefined\<close> where a step is missing), the
  first summary of a work group, and the external identifier: the value of the first
  entry of the list whose type tag is \<open>doi\<close>.
\<close>

fun value_at :: "js \<Rightarrow> string list \<Rightarrow> js" where
  "value_at v [] = v"
| "value_at v (k # ks) =
     (case v of
        JObj ps \<Rightarrow> (case map_of ps k of None \<Rightarrow> JUndefined | Some u \<Rightarrow> value_at u ks)
      | _ \<Rightarrow> JUndefined)"











text \<open>
  The shape of a response body: an object whose \<open>group\<close>, when present, is a list of
  objects, each with a \<open>work-summary\<close> list that starts with an object; in a summary the
  year and the type are strings when present, the year a short one, and the external
  identifiers, when present, an object whose \<open>external-id\<close>, when present, is a list of
  objects.
\<close>

fun is_object :: "js \<Rightarrow> bool" where
  "is_object (JObj ps) = True"
| "is_object v = False"








text \<open>
  The failures of a request: a network error, a status that is not a success (from 200
  to 299), a body that does not parse, and a body that is malformed: \<open>null\<close>, or with a
  \<open>group\<close> that is neither missing nor a list, or with a group in the list that has no
  first summary.
\<close>

definition lacks_summary :: "js \<Rightarrow> bool" where
  "lacks_summary g =
     (case g of
        JUndefined \<Rightarrow> True
      | JNull \<Rightarrow> True
      | JObj ps \<Rightarrow>
          (case value_at g [''work-summary''] of
             JUndefined \<Rightarrow> True
           | JNull \<Rightarrow> True
           | JArr [] \<Rightarrow> True
           | JArr (s # rest) \<Rightarrow> s = JNull
           | _ \<Rightarrow> False)
      | _ \<Rightarrow> False)"

definition malformed :: "js \<Rightarrow> bool" where
  "malformed body =
     (case body of
        JNull \<Rightarrow> True
      | JObj ps \<Rightarrow>
          (case value_at body [''group''] of
             JUndefined \<Rightarrow> False
           | JNull \<Rightarrow> False
           | JBool b \<Rightarrow> b
           | JNum n \<Rightarrow> n \<noteq> 0
           | JStr s \<Rightarrow> s \<noteq> []
           | JArr gs \<Rightarrow> list_ex lacks_summary gs
           | JObj qs \<Rightarrow> True)
      | _ \<Rightarrow> False)"

definition request_fails :: "http_outcome \<Rightarrow> bool" where
  "request_fails outcome =
     (case outcome of
        NetworkError \<Rightarrow> True
      | Response status body \<Rightarrow>
          status < 200 \<or> 299 < status \<or> (case body of None \<Rightarrow> True | Some b \<Rightarrow> malformed b))"

text \<open>
  Worlds for examples: one whose network gives every request the same outcome, one
  without a network, one whose registry answers. \<open>Math.random\<close> returns a half.
\<close>

definition answering :: "http_outcome \<Rightarrow> world" where
  "answering outcome = \<lparr> network = (\<lambda>n url. outcome), random = (\<lambda>k. 1 / 2),
               sent = 0, drawn = 0, events = [] \<rparr>"

definition offline :: world where
  "offline = \<lparr> network = (\<lambda>n url. NetworkError), random = (\<lambda>k. 1 / 2),
               sent = 0, drawn = 0, events = [] \<rparr>"




text \<open>
  For the proofs: a property name that is neither \<open>length\<close> nor an array index, and the
  entry that \<open>find\<close> returns.
\<close>

definition plain_key :: "string \<Rightarrow> bool" where
  "plain_key k = (k \<noteq> ''length'' \<and> array_index k = None)"


section \<open>Batch Orchestrator: \<open>handleBatchAnalyze\<close>\<close>

text \<open>
  The state of the component that the handler writes, and the handler. The fetcher is a
  parameter: the handler guards each call, although \<open>fetchOrcidData\<close> never throws.
\<close>

record app_state =
  loading :: bool
  error :: "string option"
  data :: "OrcidProfileData list"

type_synonym fetcher = "string \<Rightarrow> world \<Rightarrow> (error + OrcidProfileData) \<times> world"

fun fetch_each ::
  "fetcher \<Rightarrow> string list \<Rightarrow> OrcidProfileData list \<Rightarrow> world \<Rightarrow> OrcidProfileData list \<times> world" where
  \<comment> \<open>The loop \<open>for (const id of ids)\<close>; \<open>results.push\<close> appends.\<close>
  "fetch_each f [] results w = (results, w)"
| "fetch_each f (i # ids) results w =
     (case f i w of
        (Inr result, w') \<Rightarrow> fetch_each f ids (results @ [result]) w'
      | (Inl e, w') \<Rightarrow>
          fetch_each f ids results (console_warn (''Skipping '' @ i @ '' due to error'') w'))"

definition batch_try ::
  "csv_file \<Rightarrow> fetcher \<Rightarrow> world \<Rightarrow> (error + OrcidProfileData list) \<times> world" where
  \<comment> \<open>The outer \<open>try\<close> block.\<close>
  "batch_try csvFile f w =
     (case parseCsvFile csvFile of
        Inl e \<Rightarrow> (Inl e, w)
      | Inr ids \<Rightarrow>
          if length ids = 0 then (Inl EmptyBatchError, w)
          else (let (results, w') = fetch_each f ids [] w in (Inr results, w')))"

definition handleBatchAnalyze ::
  "csv_file option \<Rightarrow> fetcher \<Rightarrow> app_state \<times> world \<Rightarrow> app_state \<times> world" where
  "handleBatchAnalyze csvFile f sw =
     (let (st, w) = sw
      in case csvFile of
           None \<Rightarrow> (st, w)
         | Some file' \<Rightarrow>
             (let st1 = st\<lparr> loading := True, error := None, data := [] \<rparr>
              in case batch_try file' f w of
                   (Inr results, w') \<Rightarrow> (st1\<lparr> data := results, loading := False \<rparr>, w')
                 | (Inl e, w') \<Rightarrow>
                     (st1\<lparr> error := Some (if message e \<noteq> [] then message e
                                             else ''Failed to process file''),
                           loading := False \<rparr>, w')))"

subsection \<open>Notions for the contract of the Batch Orchestrator\<close>

text \<open>
  The fetches of a batch, one for each identifier in order, each started in the world
  that the fetch before it (and the diagnostic for it, if it failed) has left: the
  identifier with the outcome of its fetch.
\<close>

fun outcomes :: "fetcher \<Rightarrow> string list \<Rightarrow> world \<Rightarrow> (string \<times> (error + OrcidProfileData)) list" where
  "outcomes f [] w = []"
| "outcomes f (i # ids) w =
     (let (r, w') = f i w
      in (i, r) # outcomes f ids
           (case r of Inr p \<Rightarrow> w' | Inl e \<Rightarrow> console_warn (''Skipping '' @ i @ '' due to error'') w'))"

definition obtained :: "(string \<times> (error + OrcidProfileData)) list \<Rightarrow> OrcidProfileData list" where
  "obtained os = List.map_filter (\<lambda>(i, r). case r of Inr p \<Rightarrow> Some p | Inl e \<Rightarrow> None) os"

definition skipped :: "(string \<times> (error + OrcidProfileData)) list \<Rightarrow> string list" where
  "skipped os = List.map_filter (\<lambda>(i, r). case r of Inr p \<Rightarrow> None | Inl e \<Rightarrow> Some i) os"

text \<open>
  For examples: a fetcher that fails on one identifier and returns a profile without
  works on any other, and a state of the component.
\<close>

definition refusing :: fetcher where
  "refusing i w =
     (if i = ''0000-0000-0000-0002'' then (Inl (FetchError i), w)
      else (Inr \<lparr> orcidId = i, fullName = ''Researcher '' @ i, works = [] \<rparr>, w))"

definition idle :: app_state where
  "idle = \<lparr> loading = False, error = None, data = [] \<rparr>"

section \<open>Chat Context Builder: the system instruction of \<open>ChatBot\<close>\<close>

text \<open>
  \<open>xs.slice(start, end)\<close> for indices that are not negative, and \<open>x.toFixed(1)\<close>: the digits of the integer \<open>n\<close> for which \<open>n / 10\<close> is nearest to
  \<open>x\<close>, with a point before the last digit, for \<open>x\<close> below \<open>10\<^sup>2\<^sup>1\<close> in
  magnitude (beyond that \<open>toFixed\<close> switches to exponent notation, which is not
  modelled). The program formats a \<open>double\<close>; where the exact value lies halfway
  between two tenths, the \<open>double\<close> may lie on either side of it, and the parameter
  \<open>up\<close> says which of the two tenths is taken.
\<close>

definition slice :: "nat \<Rightarrow> nat \<Rightarrow> 'a list \<Rightarrow> 'a list" where
  "slice start end xs = take (end - start) (drop start xs)"

definition toFixed1 :: "bool \<Rightarrow> real \<Rightarrow> string" where
  "toFixed1 up x =
     (let s = (if x < 0 then ''-'' else []);
          n = (if up then \<lfloor>10 * \<bar>x\<bar> + 1 / 2\<rfloor> else \<lceil>10 * \<bar>x\<bar> - 1 / 2\<rceil>)
      in s @ decimal (n div 10) @ ''.'' @ decimal (n mod 10))"

definition indent :: string where
  "indent = replicate 8 CHR '' ''"

definition systemInstruction :: "bool \<Rightarrow> AnalysisStats option \<Rightarrow> string" where
  "systemInstruction up contextData =
     ''You are a helpful research assistant bot analyzing academic publication data.''
     @ (case contextData of
          None \<Rightarrow> []
        | Some c \<Rightarrow>
            [CHR 0x0A] @ indent @ [CHR 0x0A, CHR 0x0A] @ ''CURRENT DATA CONTEXT:''
            @ [CHR 0x0A] @ indent @ ''- Total Researchers Analyzed: '' @ show_nat (totalResearchers c)
            @ [CHR 0x0A] @ indent @ ''- Total Publications: '' @ show_nat (totalPublications c)
            @ [CHR 0x0A] @ indent @ ''- Average Publications per Researcher: ''
              @ toFixed1 up (avgPublications c)
            @ [CHR 0x0A] @ indent @ ''- Top Years: ''
              @ join '', '' (map (\<lambda>y. number_to_string (fst y) @ '' ('' @ count_text (snd y) @ '')'')
                             (slice 0 3 (publicationsByYear c)))
            @ [CHR 0x0A] @ indent @ ''- Top Types: ''
              @ join '', '' (map (\<lambda>t. fst t @ '' ('' @ count_text (snd t) @ '')'')
                             (slice 0 3 (publicationsByType c)))
            @ [CHR 0x0A] @ indent
            @ [CHR 0x0A] @ indent @ ''Use this data to answer user questions about the specific analysis currently on screen. Be concise and professional.''
            @ [CHR 0x0A] @ indent)"

text \<open>
  The effect that runs when the summary changes: with an API key it replaces the chat
  session by one created with the new instruction; without a key it does nothing.
\<close>

record chat_session =
  model :: string
  instruction :: string

definition update_session ::
  "bool \<Rightarrow> string option \<Rightarrow> AnalysisStats option \<Rightarrow> chat_session option
     \<Rightarrow> chat_session option" where
  "update_session up api_key contextData current =
     (case api_key of
        None \<Rightarrow> current
      | Some k \<Rightarrow>
          if k = [] then current
          else Some \<lparr> model = ''gemini-3-pro-preview'',
                     instruction = systemInstruction up contextData \<rparr>)"

subsection \<open>Notions for the contract of the Chat Context Builder\<close>

text \<open>
  The preamble; an entry formatted as \<open>label (count)\<close>; a list of strings joined by
  commas; the tenths \<open>n\<close> of a number that is not negative, written with one decimal
  place.
\<close>

definition preamble :: string where
  "preamble = ''You are a helpful research assistant bot analyzing academic publication data.''"

definition label_count :: "string \<Rightarrow> count \<Rightarrow> string" where
  "label_count l c = l @ '' ('' @ count_text c @ '')''"

fun comma_joined :: "string list \<Rightarrow> string" where
  "comma_joined [] = []"
| "comma_joined [x] = x"
| "comma_joined (x # xs) = x @ '', '' @ comma_joined xs"

definition one_decimal :: "int \<Rightarrow> string" where
  "one_decimal n = decimal (n div 10) @ ''.'' @ decimal (n mod 10)"

text \<open>A summary for examples.\<close>

definition example_stats :: AnalysisStats where
  "example_stats =
     \<lparr> totalResearchers = 2, totalPublications = 7, avgPublications = 7 / 2,
       publicationsByYear =
         [(Fin 2019, Count 1), (Fin 2020, Count 3), (Fin 2021, Count 2), (Fin 2022, Count 1)],
       publicationsByType = [(''JOURNAL_ARTICLE'', Count 4), (''BOOK'', Count 2), (''Other'', Count 1)],
       processedProfiles = [] \<rparr>"

section \<open>Properties of the Identifier Extractor\<close>

lemma of_char_lower: "(of_char (lower_char c) :: nat) =
   (let n = of_char c in if (65 \<le> n \<and> n \<le> 90) \<or> (192 \<le> n \<and> n \<le> 222 \<and> n \<noteq> 215) then n + 32 else n)"
  by (simp add: lower_char_def Let_def)

lemma char_eq_code: "c = d \<longleftrightarrow> (of_char c :: nat) = of_char d"
  by simp

lemma lower_comma: "lower_char c = CHR '','' \<longleftrightarrow> c = CHR '',''"
  unfolding char_eq_code[of _ "CHR '',''"] of_char_lower by (simp add: Let_def)

lemma ws_lower: "is_ws (lower_char c) = is_ws c"
  unfolding is_ws_def of_char_lower by (auto simp add: Let_def)

lemma split1_map:
  assumes "\<And>c. f c = sep \<longleftrightarrow> c = sep"
  shows "split1 sep (map f s) = (map f (fst (split1 sep s)), map (map f) (snd (split1 sep s)))"
  by (induction s) (auto simp: assms split: prod.splits)

lemma split_map:
  assumes "\<And>c. f c = sep \<longleftrightarrow> c = sep"
  shows "split sep (map f s) = map (map f) (split sep s)"
  by (simp add: split_def split1_map[OF assms] split: prod.splits)

lemma dropWhile_ws_lower: "dropWhile is_ws (map lower_char s) = map lower_char (dropWhile is_ws s)"
  by (induction s) (auto simp: ws_lower)

lemma trim_lower: "trim (toLowerCase s) = toLowerCase (trim s)"
  by (simp add: trim_def toLowerCase_def rev_map dropWhile_ws_lower)

lemma header_eq:
  "map trim (split CHR '','' (toLowerCase l)) = map (\<lambda>cell. toLowerCase (trim cell)) (split CHR '','' l)"
proof -
  have "split CHR '','' (toLowerCase l) = map toLowerCase (split CHR '','' l)"
    unfolding toLowerCase_def by (rule ext split_map) (rule lower_comma)
  then show ?thesis by (simp add: trim_lower o_def)
qed

lemma indexOf_takeWhile:
  "indexOf xs x = (if x \<in> set xs then int (length (takeWhile (\<lambda>y. y \<noteq> x) xs)) else - 1)"
  by (induction xs) (auto simp: Let_def)

lemma indexOf_header:
  "indexOf (map trim (split CHR '','' (toLowerCase (fst (split_lines1 text))))) ''orcid'' =
     (if has_orcid_header text then int (orcid_column text) else - 1)"
  unfolding header_eq indexOf_takeWhile has_orcid_header_def orcid_column_def header_cells_def
    is_orcid_header_def
  by (force simp: list_ex_iff takeWhile_map o_def)

lemma scan_rows_eq:
  "scan_rows (int k) ls ids =
     ids @ filter orcid_re (map (\<lambda>row. trim (row ! k)) (filter (\<lambda>row. k < length row) (map (split CHR '','') ls)))"
  by (induction ls arbitrary: ids) (auto simp: Let_def)

lemma parseCsvText_eq:
  "parseCsvText text =
     (if has_orcid_header text
      then Inr (filter orcid_re (map (\<lambda>row. trim (row ! orcid_column text))
                 (filter (\<lambda>row. orcid_column text < length row) (data_rows text))))
      else Inl MissingColumnError)"
  using indexOf_header[of "text"]
  by (cases "has_orcid_header text")
     (auto simp: parseCsvText_def Let_def scan_rows_eq data_rows_def split: prod.splits)

lemma split1_join: "split1 sep s = (w, ws) \<Longrightarrow> s = w @ concat (map (\<lambda>x. sep # x) ws)"
  by (induction s arbitrary: w ws) (auto split: prod.splits if_splits)

lemma split1_nosep: "sep \<notin> set g \<Longrightarrow> split1 sep (g @ sep # r) = (g, split sep r)"
  by (induction g) (auto simp: split_def split: prod.splits)

lemma split_nosep: "sep \<notin> set g \<Longrightarrow> split sep g = [g]"
  by (induction g) (auto simp: split_def split: prod.splits)

lemma m_digit_simps:
  "m_digit [] = None" "m_digit (c # cs) = (if is_digit c then Some cs else None)"
  by (simp_all add: m_digit_def)

lemma m_rep_digit:
  "m_rep n m_digit s = Some r \<longleftrightarrow> (\<exists>g. s = g @ r \<and> length g = n \<and> list_all is_digit g)"
proof (induction n arbitrary: s)
  case 0
  then show ?case by auto
next
  case (Suc n)
  show ?case
  proof (cases s)
    case Nil
    then show ?thesis by (auto simp: m_digit_simps)
  next
    case (Cons c cs)
    show ?thesis
    proof
      assume "m_rep (Suc n) m_digit s = Some r"
      then obtain g where "is_digit c" "cs = g @ r" "length g = n" "list_all is_digit g"
        using Cons Suc.IH[of cs] by (auto simp: m_digit_simps split: if_splits)
      then have "s = (c # g) @ r \<and> length (c # g) = Suc n \<and> list_all is_digit (c # g)"
        using Cons by simp
      then show "\<exists>g. s = g @ r \<and> length g = Suc n \<and> list_all is_digit g" by blast
    next
      assume "\<exists>g. s = g @ r \<and> length g = Suc n \<and> list_all is_digit g"
      then obtain g where g: "s = g @ r" "length g = Suc n" "list_all is_digit g" by blast
      then obtain g' where "g = c # g'" using Cons by (cases g) auto
      then show "m_rep (Suc n) m_digit s = Some r"
        using g Cons Suc.IH[of cs] by (auto simp: m_digit_simps)
    qed
  qed
qed

lemma m_rep_digit_app:
  "length g = n \<Longrightarrow> list_all is_digit g \<Longrightarrow> m_rep n m_digit (g @ r) = Some r"
  using m_rep_digit[of n "g @ r" r] by blast

lemma orcid_re_shape:
  "orcid_re s \<longleftrightarrow>
     (\<exists>a b c d x. s = a @ CHR ''-'' # b @ CHR ''-'' # c @ CHR ''-'' # d @ [x]
        \<and> length a = 4 \<and> length b = 4 \<and> length c = 4 \<and> length d = 3
        \<and> list_all is_digit (a @ b @ c @ d) \<and> (is_digit x \<or> x = CHR ''X''))"
  (is "?L \<longleftrightarrow> ?R")
proof -
  have grp: "m_seq (m_rep 4 m_digit) (m_char CHR ''-'') t = Some r \<longleftrightarrow>
      (\<exists>g. t = g @ CHR ''-'' # r \<and> length g = 4 \<and> list_all is_digit g)" for t r
    by (auto simp: m_seq_def m_char_def m_rep_digit m_rep_digit_app
          split: option.splits list.splits if_splits)
  have last: "m_seq (m_rep 3 m_digit) m_digit_or_X t = Some [] \<longleftrightarrow>
      (\<exists>d x. t = d @ [x] \<and> length d = 3 \<and> list_all is_digit d \<and> (is_digit x \<or> x = CHR ''X''))" for t
    by (auto simp: m_seq_def m_digit_or_X_def m_rep_digit m_rep_digit_app
          split: option.splits list.splits if_splits)
  have "?L \<longleftrightarrow> (\<exists>r1 r2 r3. m_seq (m_rep 4 m_digit) (m_char CHR ''-'') s = Some r1
       \<and> m_seq (m_rep 4 m_digit) (m_char CHR ''-'') r1 = Some r2
       \<and> m_seq (m_rep 4 m_digit) (m_char CHR ''-'') r2 = Some r3
       \<and> m_seq (m_rep 3 m_digit) m_digit_or_X r3 = Some [])"
  proof -
    have three: "m_rep 3 p t = Some r \<longleftrightarrow>
        (\<exists>r1 r2. p t = Some r1 \<and> p r1 = Some r2 \<and> p r2 = Some r)" for p t r
      by (simp add: numeral_3_eq_3 split: option.splits)
    have seq: "m_seq p q t = Some r \<longleftrightarrow> (\<exists>u. p t = Some u \<and> q u = Some r)" for p q t r
      by (simp add: m_seq_def split: option.splits)
    show ?thesis
      unfolding orcid_re_def seq[of "m_rep 3 (m_seq (m_rep 4 m_digit) (m_char CHR ''-''))"] three
      by blast
  qed
  also have "\<dots> \<longleftrightarrow> ?R"
    unfolding grp last by (auto; blast)
  finally show ?thesis .
qed

lemma digit_not_hyphen: "list_all is_digit g \<Longrightarrow> CHR ''-'' \<notin> set g"
  by (auto simp: list_all_iff is_digit_def)

lemma orcid_re_pattern: "orcid_re s \<longleftrightarrow> structural_pattern 15 s"
proof
  assume "orcid_re s"
  then obtain a b c d x where s: "s = a @ CHR ''-'' # b @ CHR ''-'' # c @ CHR ''-'' # d @ [x]"
    and len: "length a = 4" "length b = 4" "length c = 4" "length d = 3"
    and dig: "list_all is_digit (a @ b @ c @ d)" and x: "is_digit x \<or> x = CHR ''X''"
    unfolding orcid_re_shape by blast
  have nx: "x \<noteq> CHR ''-''" using x by (auto simp: is_digit_def)
  have nh: "CHR ''-'' \<notin> set a" "CHR ''-'' \<notin> set b" "CHR ''-'' \<notin> set c" "CHR ''-'' \<notin> set (d @ [x])"
    using digit_not_hyphen[OF dig] nx by auto
  have "split CHR ''-'' s = [a, b, c, d @ [x]]"
    unfolding s by (simp add: split_def[of _ "a @ _"] split1_nosep nh
        split_def[of _ "b @ _"] split_def[of _ "c @ _"] split_nosep[OF nh(4)])
  then show "structural_pattern 15 s"
    using len dig x by (simp add: structural_pattern_def s)
next
  assume "structural_pattern 15 s"
  then obtain a b c e where sp: "split CHR ''-'' s = [a, b, c, e]"
    and len: "length a = 4" "length b = 4" "length c = 4" "length e = 4"
    and dig: "list_all is_digit (take 15 (a @ b @ c @ e))"
    and x: "is_digit (last s) \<or> last s = CHR ''X''"
    by (auto simp: structural_pattern_def Let_def length_Suc_conv numeral_eq_Suc)
  have s: "s = a @ CHR ''-'' # b @ CHR ''-'' # c @ CHR ''-'' # e"
    using sp split1_join[of "CHR ''-''" s a "[b, c, e]"]
    by (simp add: split_def split: prod.splits)
  from len(4) obtain d y where e: "e = d @ [y]" "length d = 3"
    by (cases e rule: rev_cases) auto
  have "last s = y" by (simp add: s e)
  moreover have "list_all is_digit (a @ b @ c @ d)" using dig len e by simp
  ultimately show "orcid_re s"
    unfolding orcid_re_shape using s e len x by blast
qed

text \<open>
  Claim C6. A file whose header row has no cell equal to \<open>orcid\<close> (after trimming,
  without regard to case) is rejected with \<open>MissingColumnError\<close>; a file whose header
  row has such a cell is not rejected: extraction returns a list of identifiers.
\<close>

theorem parseCsvFile_header_lookup:
  "(\<not> has_orcid_header text \<longrightarrow> parseCsvFile (Readable text) = Inl MissingColumnError)
   \<and> (has_orcid_header text \<longrightarrow> (\<exists>ids. parseCsvFile (Readable text) = Inr ids))"
  by (simp add: parseCsvText_eq)

theorem parseCsvFile_header_lookup_witness:
  "parseCsvFile (Readable (''name,email'' @ [CHR 0x0A] @ ''0000-0002-1825-0097,a'')) = Inl MissingColumnError
   \<and> (\<exists>ids. parseCsvFile (Readable (''name, ORCID '' @ [CHR 0x0A] @ ''Bob,0000-0002-1825-0097'')) = Inr ids)"
proof -
  have absent: "\<not> has_orcid_header (''name,email'' @ [CHR 0x0A] @ ''0000-0002-1825-0097,a'')"
    by code_simp
  have present: "has_orcid_header (''name, ORCID '' @ [CHR 0x0A] @ ''Bob,0000-0002-1825-0097'')"
    by code_simp
  show ?thesis
    using parseCsvFile_header_lookup [of "''name,email'' @ [CHR 0x0A] @ ''0000-0002-1825-0097,a''"]
      parseCsvFile_header_lookup [of "''name, ORCID '' @ [CHR 0x0A] @ ''Bob,0000-0002-1825-0097''"]
      absent present
    by blast
qed

text \<open>
  Claim C3, as the code has it. Once the identifier column is found, the extractor returns,
  in file order and with duplicates kept, the trimmed cells at that column that match the
  pattern with the first fifteen group characters digits: the regular expression wants
  three digits before the final character. Rows with no cell at the column index are
  skipped.
\<close>

theorem parseCsvFile_accepts:
  "has_orcid_header text \<Longrightarrow>
   parseCsvFile (Readable text) =
     Inr (filter (structural_pattern 15)
           (map (\<lambda>row. trim (row ! orcid_column text))
             (filter (\<lambda>row. orcid_column text < length row) (data_rows text))))"
proof -
  assume "has_orcid_header text"
  moreover have "filter orcid_re xs = filter (structural_pattern 15) xs" for xs
    by (rule filter_cong) (simp_all add: orcid_re_pattern)
  ultimately show ?thesis
    by (simp add: parseCsvText_eq)
qed

theorem parseCsvFile_accepts_witness:
  "has_orcid_header (''orcid,name'' @ [CHR 0x0A] @ ''0000-0002-1825-0097,Alice'' @ [CHR 0x0A]
      @ ''bad-id,Bob'' @ [CHR 0x0A] @ ''0000-0001-5109-3700,Carol'' @ [CHR 0x0A]
      @ [CHR 0x0A] @ '' 0000-0002-1825-0097 ,Dan'')
   \<and> parseCsvFile (Readable (''orcid,name'' @ [CHR 0x0A] @ ''0000-0002-1825-0097,Alice'' @ [CHR 0x0A]
      @ ''bad-id,Bob'' @ [CHR 0x0A] @ ''0000-0001-5109-3700,Carol'' @ [CHR 0x0A]
      @ [CHR 0x0A] @ '' 0000-0002-1825-0097 ,Dan''))
     = Inr [''0000-0002-1825-0097'', ''0000-0001-5109-3700'', ''0000-0002-1825-0097'']"
proof -
  let ?t = "''orcid,name'' @ [CHR 0x0A] @ ''0000-0002-1825-0097,Alice'' @ [CHR 0x0A]
      @ ''bad-id,Bob'' @ [CHR 0x0A] @ ''0000-0001-5109-3700,Carol'' @ [CHR 0x0A]
      @ [CHR 0x0A] @ '' 0000-0002-1825-0097 ,Dan''"
  have h: "has_orcid_header ?t"
    by code_simp
  have v: "filter (structural_pattern 15)
           (map (\<lambda>row. trim (row ! orcid_column ?t))
             (filter (\<lambda>row. orcid_column ?t < length row) (data_rows ?t)))
        = [''0000-0002-1825-0097'', ''0000-0001-5109-3700'', ''0000-0002-1825-0097'']"
    by code_simp
  show ?thesis
    using h parseCsvFile_accepts [OF h] unfolding v by simp
qed

text \<open>
  The claim as the specification words it fails: a cell whose first twelve group
  characters are digits and whose last character is \<open>X\<close> matches the pattern of the
  sentence, and the extractor rejects it when the three characters in between are no digits.
\<close>

theorem parseCsvFile_twelve_digits_counterexample:
  "structural_pattern 12 ''0000-0000-0000-abcX''
   \<and> parseCsvFile (Readable (''orcid'' @ [CHR 0x0A] @ ''0000-0000-0000-abcX'')) = Inr []"
  by code_simp

section \<open>Rounding, printing and parsing integers\<close>

lemma bits_0 [simp]: "n \<le> 0 \<Longrightarrow> bits n = 0"
  by (subst bits.simps) simp

lemma bits_pos: "0 < n \<Longrightarrow> bits n = Suc (bits (n div 2))"
  by (subst bits.simps) simp

lemma bits_bounds: "0 < n \<Longrightarrow> 2 ^ (bits n - 1) \<le> n \<and> n < 2 ^ bits n"
proof (induction n rule: bits.induct)
  case (1 n)
  show ?case
  proof (cases "n div 2 = 0")
    case True
    then have "n = 1" using 1(2) by linarith
    then show ?thesis by (simp add: bits_pos)
  next
    case False
    then have pos: "0 < n div 2" using 1(2) by linarith
    then have ih: "2 ^ (bits (n div 2) - 1) \<le> n div 2" "n div 2 < 2 ^ bits (n div 2)"
      using 1 by simp_all
    have b: "bits (n div 2) \<noteq> 0" using pos by (simp add: bits_pos)
    have "2 ^ bits (n div 2) \<le> n"
    proof -
      have "(2::int) ^ bits (n div 2) = 2 * 2 ^ (bits (n div 2) - 1)"
        using b by (cases "bits (n div 2)") simp_all
      also have "\<dots> \<le> 2 * (n div 2)" using ih(1) by simp
      also have "\<dots> \<le> n" by linarith
      finally show ?thesis .
    qed
    moreover have "n < 2 * 2 ^ bits (n div 2)"
      using ih(2) by linarith
    ultimately show ?thesis using 1(2) by (simp add: bits_pos)
  qed
qed

lemma bits_le_iff: "0 \<le> n \<Longrightarrow> bits n \<le> k \<longleftrightarrow> n < 2 ^ k"
proof (cases "n = 0")
  case True
  then show ?thesis by simp
next
  case False
  assume "0 \<le> n"
  then have pos: "0 < n" using False by simp
  note b = bits_bounds[OF pos]
  show ?thesis
  proof
    assume "bits n \<le> k"
    then have "(2::int) ^ bits n \<le> 2 ^ k" by (simp add: power_increasing)
    then show "n < 2 ^ k" using b by linarith
  next
    assume "n < 2 ^ k"
    then have "(2::int) ^ (bits n - 1) < 2 ^ k" using b by linarith
    then have "bits n - 1 < k" by (simp add: power_strict_increasing_iff)
    then show "bits n \<le> k" by linarith
  qed
qed

lemma round53_small: "n < 2 ^ 53 \<Longrightarrow> round53 n = n"
proof (cases "0 \<le> n")
  case True
  assume "n < 2 ^ 53"
  then have "bits n \<le> 53" using True by (simp only: bits_le_iff)
  then show ?thesis by (simp add: round53_def)
next
  case False
  then show ?thesis by (simp add: round53_def)
qed

lemma int_le_div: "0 < (b::int) \<Longrightarrow> a * b \<le> n \<Longrightarrow> a \<le> n div b"
  using zdiv_mono1[of "a * b" n b] by simp

lemma int_div_less: "0 < (b::int) \<Longrightarrow> n < a * b \<Longrightarrow> n div b < a"
proof -
  assume b: "0 < b" and n: "n < a * b"
  have "n div b * b \<le> n"
    using b by (metis div_mult_mod_eq le_add_same_cancel1 pos_mod_sign)
  then have "n div b * b < a * b" using n by linarith
  then show ?thesis using b by (simp add: mult_less_cancel_right)
qed

lemma round53_cases:
  assumes "0 \<le> n"
  obtains (small) "n < 2 ^ 53" "round53 n = n"
  | (large) s q where "bits n = 53 + s" "0 < s" "2 ^ 52 \<le> q" "q \<le> 2 ^ 53"
      "round53 n = q * 2 ^ s" "\<bar>q * 2 ^ s - n\<bar> * 2 \<le> 2 ^ s" "2 ^ (52 + s) \<le> n" "n < 2 ^ (53 + s)"
proof (cases "n < 2 ^ 53")
  case True
  then show ?thesis using small round53_small by blast
next
  case False
  then have nb: "\<not> bits n \<le> 53" using bits_le_iff[OF assms, of 53] by simp
  define s where "s = bits n - 53"
  have s: "bits n = 53 + s" "0 < s" using nb by (simp_all add: s_def)
  have pos: "0 < n" using False assms by (cases "n = 0") simp_all
  have lo: "2 ^ (52 + s) \<le> n" and hi: "n < 2 ^ (53 + s)"
    using bits_bounds[OF pos] s by simp_all
  define q0 where "q0 = n div 2 ^ s"
  define r where "r = n mod 2 ^ s"
  define h :: int where "h = 2 ^ (s - 1)"
  define q where "q = (if h < r \<or> (r = h \<and> odd q0) then q0 + 1 else q0)"
  have rq: "round53 n = q * 2 ^ s"
    using nb by (simp add: round53_def Let_def s_def q_def q0_def r_def h_def)
  have n: "n = q0 * 2 ^ s + r" unfolding q0_def r_def by (rule div_mult_mod_eq[symmetric])
  have r: "0 \<le> r" "r < 2 ^ s" by (simp_all add: r_def)
  have hh: "2 * h = 2 ^ s" using s(2) by (cases s) (simp_all add: h_def)
  have q0lo: "2 ^ 52 \<le> q0"
  proof -
    have "(2::int) ^ 52 * 2 ^ s \<le> n" using lo by (simp add: power_add)
    then have "(2::int) ^ 52 \<le> n div 2 ^ s"
      by (intro int_le_div) simp_all
    then show ?thesis by (simp add: q0_def)
  qed
  have q0hi: "q0 < 2 ^ 53"
  proof -
    have "n < 2 ^ 53 * 2 ^ s" using hi by (simp add: power_add)
    then show ?thesis unfolding q0_def by (intro int_div_less) simp_all
  qed
  have "\<bar>q * 2 ^ s - n\<bar> * 2 \<le> 2 ^ s"
    unfolding q_def n using r hh by (auto simp: algebra_simps abs_if)
  moreover have "2 ^ 52 \<le> q" "q \<le> 2 ^ 53" using q0lo q0hi by (auto simp: q_def)
  ultimately show ?thesis using large s rq lo hi by blast
qed

lemma round53_nonpos: "n \<le> 0 \<Longrightarrow> round53 n = n"
  by (simp add: round53_def)

lemma round53_pos: "0 < n \<Longrightarrow> 0 < round53 n"
proof -
  assume pos: "0 < n"
  then have "0 \<le> n" by simp
  then show ?thesis
  proof (cases rule: round53_cases)
    case small
    then show ?thesis using pos by simp
  next
    case (large s q)
    have "(0::int) < 2 ^ 52" by simp
    then have "0 < q" using large(3) by linarith
    then show ?thesis using large(5) by simp
  qed
qed

lemma round53_nonneg: "0 \<le> n \<Longrightarrow> 0 \<le> round53 n"
  using round53_pos[of n] round53_nonpos[of n] by (cases "n = 0") auto

lemma round53_upper:
  assumes "0 \<le> n"
  shows "round53 n * 2 ^ 53 \<le> n * (2 ^ 53 + 1)"
  using assms
proof (cases rule: round53_cases)
  case small
  then show ?thesis using assms by (simp add: algebra_simps)
next
  case (large s q)
  obtain t where t: "s = Suc t" using large(2) by (cases s) auto
  define X where "X = q * 2 ^ s"
  have "\<bar>X - n\<bar> * 2 \<le> 2 ^ s" using large(6) by (simp add: X_def)
  then have "X * 2 \<le> 2 * n + 2 ^ s" by (simp add: abs_if split: if_splits)
  then have a: "q * 2 ^ s * 2 \<le> 2 * n + 2 ^ s" by (simp add: X_def)
  have "(2::int) ^ (52 + s) = 2 ^ t * 2 ^ 53" by (simp add: t power_add)
  then have b: "2 ^ t * 2 ^ 53 \<le> n" using large(7) by simp
  have "(2::int) ^ s = 2 * 2 ^ t" by (simp add: t)
  then have "q * 2 ^ s \<le> n + 2 ^ t" using a by linarith
  then have "q * 2 ^ s * 2 ^ 53 \<le> (n + 2 ^ t) * 2 ^ 53"
    by (simp only: mult_right_mono zero_le_numeral zero_le_power)
  also have "\<dots> = n * 2 ^ 53 + 2 ^ t * 2 ^ 53" by (simp only: distrib_right)
  also have "\<dots> \<le> n * 2 ^ 53 + n" using b by linarith
  finally show ?thesis by (simp add: large(5) algebra_simps)
qed

lemma double_below:
  assumes "round53 a = a" "0 \<le> a" "a < 2 ^ D" "54 \<le> D"
  shows "a \<le> 2 ^ D - 2 ^ (D - 53)"
  using assms(2)
proof (cases rule: round53_cases)
  case small
  have "(2::int) ^ 53 \<le> 2 ^ (D - 1)" using assms(4) by (intro power_increasing) simp_all
  moreover have "(2::int) ^ (D - 53) \<le> 2 ^ (D - 1)" by (intro power_increasing) simp_all
  moreover have "(2::int) ^ D = 2 * 2 ^ (D - 1)" using assms(4) by (cases D) simp_all
  ultimately show ?thesis using small(1) by linarith
next
  case (large s q)
  have "(2::int) ^ (52 + s) < 2 ^ D" using large(7) assms(3) by linarith
  then have sD: "52 + s < D" by (simp only: power_strict_increasing_iff)
  show ?thesis
  proof (cases "53 + s = D")
    case True
    then have D: "D - 53 = s" by simp
    have "(2::int) ^ D = 2 ^ (53 + s)" using True by simp
    also have "\<dots> = 2 ^ 53 * 2 ^ s" by (rule power_add)
    finally have DD: "(2::int) ^ D = 2 ^ 53 * 2 ^ s" .
    then have "q * 2 ^ s < 2 ^ 53 * 2 ^ s" using large(5) assms(1,3) by simp
    then have "q < 2 ^ 53" by (simp add: mult_less_cancel_right)
    then have "q \<le> 2 ^ 53 - 1" by simp
    then have "q * 2 ^ s \<le> (2 ^ 53 - 1) * 2 ^ s"
      by (simp only: mult_right_mono zero_le_numeral zero_le_power)
    also have "\<dots> = 2 ^ 53 * 2 ^ s - 2 ^ s" by (simp only: left_diff_distrib mult_1)
    finally show ?thesis using large(5) assms(1) D DD by simp
  next
    case False
    then have "53 + s \<le> D - 1" using sD by simp
    then have "(2::int) ^ (53 + s) \<le> 2 ^ (D - 1)" by (intro power_increasing) simp_all
    moreover have "(2::int) ^ (D - 53) \<le> 2 ^ (D - 1)" by (intro power_increasing) simp_all
    moreover have "(2::int) ^ D = 2 * 2 ^ (D - 1)" using assms(4) by (cases D) simp_all
    ultimately show ?thesis using large(8) by linarith
  qed
qed

lemma round53_product_below:
  assumes "0 \<le> a" "a \<le> 2 ^ D - 2 ^ (D - 53)" "54 \<le> D" "0 < n"
  shows "round53 (a * n) < n * 2 ^ D"
proof -
  define E :: int where "E = 2 ^ (D - 53)"
  define P :: int where "P = 2 ^ 53"
  have E: "0 < E" and P: "0 < P" by (simp_all add: E_def P_def)
  have "(2::int) ^ D = 2 ^ ((D - 53) + 53)" using assms(3) by simp
  also have "\<dots> = 2 ^ (D - 53) * 2 ^ 53" by (rule power_add)
  finally have D: "(2::int) ^ D = E * P" by (simp only: E_def P_def)
  have N: "0 \<le> a * n" using assms(1,4) by simp
  have "round53 (a * n) * P \<le> a * n * (P + 1)"
    using round53_upper[OF N] by (simp add: P_def)
  also have "\<dots> \<le> (E * P - E) * n * (P + 1)"
  proof -
    have "a \<le> E * P - E" using assms(2) D by (simp add: E_def)
    then have "a * n \<le> (E * P - E) * n"
      using assms(4) by (simp add: mult_right_mono)
    then show ?thesis using P by (simp add: mult_right_mono)
  qed
  also have "\<dots> = n * E * (P * P - 1)" by (simp add: algebra_simps)
  also have "\<dots> < n * E * (P * P)"
    using assms(4) E by (simp add: mult_strict_left_mono)
  finally have "round53 (a * n) * P < n * (E * P) * P" by (simp add: algebra_simps)
  then have "round53 (a * n) < n * (E * P)" using P by (simp add: mult_less_cancel_right)
  then show ?thesis by (simp add: D)
qed

lemma floor_times_double:
  assumes "is_double r" "r < 1" "0 < n"
  shows "0 \<le> \<lfloor>times_double r n\<rfloor> \<and> \<lfloor>times_double r n\<rfloor> < int n"
proof -
  let ?a = "double_steps r"
  have a: "of_int ?a = r * 2 ^ 1074" "round53 ?a = ?a" "0 \<le> r"
    using assms(1) by (simp_all add: is_double_def)
  have a0: "0 \<le> ?a" using a(3) by (simp add: double_steps_def)
  have "r * 2 ^ 1074 < 2 ^ 1074" using assms(2) by simp
  then have "(of_int ?a :: real) < of_int (2 ^ 1074)" using a(1) by simp
  then have a1: "?a < 2 ^ 1074" by (simp only: of_int_less_iff)
  have "?a \<le> 2 ^ 1074 - 2 ^ (1074 - 53)"
    by (rule double_below[OF a(2) a0 a1]) simp
  then have "round53 (?a * int n) < int n * 2 ^ 1074"
    using a0 assms(3) by (intro round53_product_below) simp_all
  then have hi: "round53 (?a * int n) div 2 ^ 1074 < int n"
    by (intro int_div_less) simp_all
  have "0 \<le> round53 (?a * int n)" using a0 by (intro round53_nonneg) simp
  then have lo: "0 \<le> round53 (?a * int n) div 2 ^ 1074"
    by (simp add: pos_imp_zdiv_nonneg_iff)
  have "\<lfloor>times_double r n\<rfloor> = round53 (?a * int n) div 2 ^ 1074"
    unfolding times_double_def using floor_divide_of_int_eq[of "round53 (?a * int n)" "2 ^ 1074 :: int", where ?'a = real]
    by simp
  then show ?thesis using lo hi by simp
qed



lemma positive_to_number: "positive (to_number i) \<longleftrightarrow> 0 < i"
proof -
  consider "0 < i" | "i < 0" | "i = 0" by linarith
  then show ?thesis
  proof cases
    case 1
    then have "0 < round53 i" by (rule round53_pos)
    then show ?thesis using 1 by (simp add: to_number_def Let_def)
  next
    case 2
    then have "0 < round53 (- i)" by (intro round53_pos) simp
    then show ?thesis using 2 by (simp add: to_number_def Let_def)
  next
    case 3
    then show ?thesis by (simp add: to_number_def Let_def round53_nonpos)
  qed
qed

lemma of_char_digit: "0 \<le> d \<Longrightarrow> d < 10 \<Longrightarrow> (of_char (char_of (48 + d :: int)) :: nat) = nat (48 + d)"
proof -
  assume d: "0 \<le> d" "d < 10"
  have "char_of (48 + d) = char_of (nat (48 + d))"
    using d by (metis add_nonneg_nonneg char_of_nat int_nat_eq zero_le_numeral of_nat_nat)
  then show ?thesis using d by (simp del: char_of_nat)
qed

lemma is_digit_char_of: "0 \<le> d \<Longrightarrow> d < 10 \<Longrightarrow> is_digit (char_of (48 + d :: int))"
  by (auto simp: is_digit_def of_char_digit nat_le_iff le_nat_iff)

lemma digit_of_char_of: "0 \<le> d \<Longrightarrow> d < 10 \<Longrightarrow> digit_of (char_of (48 + d :: int)) = Some (nat d)"
  by (auto simp add: digit_of_def of_char_digit Let_def)

lemma decimal_digits: "0 \<le> i \<Longrightarrow> list_all is_digit (decimal i) \<and> decimal i \<noteq> []"
proof (induction i rule: decimal.induct)
  case (1 i)
  show ?case
  proof (cases "i < 10")
    case True
    then show ?thesis using 1 by (subst (1 2) decimal.simps) (simp add: is_digit_char_of)
  next
    case False
    then show ?thesis using 1 by (subst (1 2) decimal.simps) (simp add: is_digit_char_of)
  qed
qed

lemma radix_value_snoc:
  "radix_value r (ds @ [c]) = int r * radix_value r ds + (case digit_of c of None \<Rightarrow> 0 | Some d \<Rightarrow> int d)"
  by (simp add: radix_value_def)

lemma radix_value_decimal: "0 \<le> i \<Longrightarrow> radix_value 10 (decimal i) = i"
proof (induction i rule: decimal.induct)
  case (1 i)
  show ?case
  proof (cases "i < 10")
    case True
    then show ?thesis using 1
      by (subst decimal.simps) (simp add: radix_value_def digit_of_char_of)
  next
    case False
    then have "radix_value 10 (decimal (i div 10)) = i div 10" using 1 by simp
    then show ?thesis using False 1
      by (subst decimal.simps) (simp add: radix_value_snoc digit_of_char_of)
  qed
qed

lemma in_radix_10: "in_radix 10 c \<longleftrightarrow> is_digit c"
  by (auto simp: in_radix_def digit_of_def is_digit_def Let_def split: option.splits if_splits)

lemma digit_not_special:
  assumes "is_digit c"
  shows "\<not> is_ws c" "c \<noteq> CHR ''-''" "c \<noteq> CHR ''+''" "c \<noteq> CHR ''x''" "c \<noteq> CHR ''X''"
  using assms by (auto simp: is_digit_def is_ws_def)

lemma digits_no_hex: "list_all is_digit s \<Longrightarrow> \<not> hex_prefix s"
  by (cases s; cases "tl s") (auto simp: hex_prefix_def digit_not_special)

lemma takeWhile_all: "list_all P xs \<Longrightarrow> takeWhile P xs = xs"
  by (simp add: list_all_iff)

lemma all_in_radix: "list_all is_digit s \<Longrightarrow> list_all (in_radix 10) s"
  by (simp add: list_all_iff in_radix_10)

lemma parseInt_digits:
  assumes "list_all is_digit s" "s \<noteq> []"
  shows "parseInt s None = to_number (radix_value 10 s)"
proof -
  obtain c cs where s: "s = c # cs" using assms(2) by (cases s) auto
  have c: "is_digit c" using assms(1) s by simp
  have dw: "dropWhile is_ws s = s" using c s by (simp add: digit_not_special)
  have "parseInt s None = to_number (radix_value 10 (takeWhile (in_radix 10) s))"
    unfolding parseInt_def dw using c assms digits_no_hex[OF assms(1)]
    by (simp add: s digit_not_special in_radix_10 Let_def)
  then show ?thesis
    by (simp only: takeWhile_all[OF all_in_radix[OF assms(1)]])
qed

lemma parseInt_decimal: "0 \<le> v \<Longrightarrow> parseInt (decimal v) None = to_number v"
  using parseInt_digits[of "decimal v"] decimal_digits[of v] by (simp add: radix_value_decimal)

lemma parseInt_minus_decimal:
  assumes "0 \<le> v"
  shows "parseInt (CHR ''-'' # decimal v) None = to_number (- v)"
proof -
  note d = decimal_digits[OF assms]
  have tw: "takeWhile (in_radix 10) (decimal v) = decimal v"
    using d by (simp add: takeWhile_all all_in_radix)
  have ws: "\<not> is_ws CHR ''-''" by (simp add: is_ws_def)
  have "parseInt (CHR ''-'' # decimal v) None
      = to_number (- radix_value 10 (takeWhile (in_radix 10) (decimal v)))"
    unfolding parseInt_def using d digits_no_hex[of "decimal v"] ws
    by (simp add: Let_def tw)
  then show ?thesis
    by (simp only: tw radix_value_decimal[OF assms])
qed

lemma decimal_bounds:
  "0 \<le> x \<Longrightarrow> x < 10 ^ length (decimal x) \<and> (0 < x \<longrightarrow> 10 ^ (length (decimal x) - 1) \<le> x)"
proof (induction x rule: decimal.induct)
  case (1 i)
  show ?case
  proof (cases "i < 10")
    case True
    then show ?thesis using 1 by (subst (1 2) decimal.simps) simp
  next
    case False
    then have ih: "i div 10 < 10 ^ length (decimal (i div 10))"
        "10 ^ (length (decimal (i div 10)) - 1) \<le> i div 10"
      using 1 by simp_all
    have ne: "decimal (i div 10) \<noteq> []" using decimal_digits[of "i div 10"] 1(2) by simp
    have len: "length (decimal i) = Suc (length (decimal (i div 10)))"
      using False by (subst decimal.simps) simp
    have "i < 10 * 10 ^ length (decimal (i div 10))" using ih(1) by linarith
    moreover have "10 * 10 ^ (length (decimal (i div 10)) - 1) \<le> i" using ih(2) by linarith
    moreover have "(10::int) ^ length (decimal (i div 10)) = 10 * 10 ^ (length (decimal (i div 10)) - 1)"
      using ne by (cases "decimal (i div 10)") simp_all
    ultimately show ?thesis by (simp add: len)
  qed
qed

lemma shortest_from_round:
  "round53 x = x \<Longrightarrow> round53 (shortest_from x n k) = x"
proof (induction x n k rule: shortest_from.induct)
  case (1 x n k)
  show ?case
    using 1 by (subst shortest_from.simps) (auto simp: Let_def)
qed

lemma shortest_from_upper:
  "0 \<le> x \<Longrightarrow> x < 10 ^ n \<Longrightarrow> shortest_from x n k \<le> 10 ^ n"
proof (induction x n k rule: shortest_from.induct)
  case (1 x n k)
  show ?case
  proof (cases "n \<le> k")
    case True
    then show ?thesis using 1(3) by (subst shortest_from.simps) simp
  next
    case False
    define p :: int where "p = 10 ^ (n - k)"
    have p: "0 < p" by (simp add: p_def)
    have n: "(10::int) ^ n = 10 ^ k * p"
      using False by (simp add: p_def power_add[symmetric])
    have lo: "x div p * p \<le> x"
      using p by (metis div_mult_mod_eq le_add_same_cancel1 pos_mod_sign)
    have "x div p < 10 ^ k"
      using 1(3) n p by (intro int_div_less) simp_all
    then have "x div p + 1 \<le> 10 ^ k" by simp
    then have "(x div p + 1) * p \<le> 10 ^ k * p" using p by (simp only: mult_right_mono less_imp_le)
    then have hi: "x div p * p + p \<le> 10 ^ n" by (simp add: n algebra_simps)
    have x: "x \<le> 10 ^ n" using 1(3) by simp
    show ?thesis
      using False 1 lo hi x
      by (subst shortest_from.simps) (auto simp: Let_def p_def[symmetric])
  qed
qed

lemma shortest_from_nonneg: "0 \<le> x \<Longrightarrow> 0 \<le> shortest_from x n k"
proof (induction x n k rule: shortest_from.induct)
  case (1 x n k)
  have "0 \<le> x div 10 ^ (n - k) * 10 ^ (n - k)"
    using 1(2) by (simp add: pos_imp_zdiv_nonneg_iff)
  then show ?case
    using 1 by (subst shortest_from.simps) (auto simp: Let_def)
qed

lemma round53_1e21: "round53 (10 ^ 21) = 10 ^ 21"
  by code_simp

lemma digits_text_decimal:
  assumes "0 \<le> x" "round53 x = x" "x < 10 ^ 21"
  shows "digits_text x = decimal (shortest x) \<and> 0 \<le> shortest x \<and> round53 (shortest x) = x"
proof -
  let ?n = "length (decimal x)"
  have r: "round53 (shortest x) = x"
    unfolding shortest_def by (rule shortest_from_round[OF assms(2)])
  have nn: "0 \<le> shortest x"
    unfolding shortest_def by (rule shortest_from_nonneg[OF assms(1)])
  have n21: "(10::int) ^ ?n \<le> 10 ^ 21"
  proof (cases "x = 0")
    case True
    have "length (decimal 0) = 1" by (subst decimal.simps) simp
    then show ?thesis using True by simp
  next
    case False
    then have "(10::int) ^ (?n - 1) \<le> x" using decimal_bounds[OF assms(1)] assms(1) by simp
    then have "(10::int) ^ (?n - 1) < 10 ^ 21" using assms(3) by linarith
    then have "?n - 1 < 21" by (simp only: power_strict_increasing_iff)
    then have "?n \<le> 21" by simp
    then show ?thesis by (intro power_increasing) simp_all
  qed
  have "shortest x \<le> 10 ^ ?n"
    unfolding shortest_def using decimal_bounds[OF assms(1)] by (intro shortest_from_upper[OF assms(1)]) simp
  then have le: "shortest x \<le> 10 ^ 21" using n21 by linarith
  have "shortest x \<noteq> 10 ^ 21"
  proof
    assume "shortest x = 10 ^ 21"
    then have "x = 10 ^ 21" using r round53_1e21 by simp
    then show False using assms(3) by simp
  qed
  then have "shortest x < 10 ^ 21" using le by linarith
  then show ?thesis using r nn by (simp add: digits_text_def Let_def)
qed

lemma parseInt_number_to_string:
  assumes "double_int i" "\<bar>i\<bar> < 10 ^ 21"
  shows "parseInt (number_to_string (Fin i)) None = Fin i"
proof (cases "i < 0")
  case False
  then have x: "0 \<le> i" "round53 i = i" "i < 10 ^ 21" "i < 2 ^ 1024"
    using assms by (simp_all add: double_int_def)
  note t = digits_text_decimal[OF x(1-3)]
  have "parseInt (number_to_string (Fin i)) None = to_number (shortest i)"
    using False t by (simp add: parseInt_decimal)
  also have "\<dots> = Fin i"
    using t x(1,4) by (simp add: to_number_def Let_def)
  finally show ?thesis .
next
  case True
  then have x: "0 \<le> - i" "round53 (- i) = - i" "- i < 10 ^ 21" "- i < 2 ^ 1024"
    using assms by (simp_all add: double_int_def)
  note t = digits_text_decimal[OF x(1-3)]
  have "parseInt (number_to_string (Fin i)) None = to_number (- shortest (- i))"
    using True t by (simp add: parseInt_minus_decimal)
  also have "\<dots> = Fin i"
  proof (cases "shortest (- i) = 0")
    case True
    then have "round53 0 = - i" using t by simp
    then show ?thesis using \<open>i < 0\<close> by (simp add: round53_nonpos)
  next
    case False
    then have "0 < shortest (- i)" using t by simp
    then show ?thesis using t x(4) by (simp add: to_number_def Let_def)
  qed
  finally show ?thesis .
qed

lemma number_to_string_head:
  assumes "double_int i" "\<bar>i\<bar> < 10 ^ 21"
  shows "number_to_string (Fin i) \<noteq> [] \<and>
    (is_digit (hd (number_to_string (Fin i))) \<or> hd (number_to_string (Fin i)) = CHR ''-'')"
proof (cases "i < 0")
  case True
  then show ?thesis by simp
next
  case False
  then have x: "0 \<le> i" "round53 i = i" "i < 10 ^ 21"
    using assms by (simp_all add: double_int_def)
  note t = digits_text_decimal[OF x]
  have "list_all is_digit (decimal (shortest i)) \<and> decimal (shortest i) \<noteq> []"
    using t by (intro decimal_digits) simp
  then show ?thesis using False t by (cases "decimal (shortest i)") simp_all
qed

declare number_to_string.simps [simp del]

section \<open>Properties of the Aggregator\<close>

lemma bump_Nil: "bump [] k = [(k, 1)]"
  by (simp add: bump_def obj_get_def)

lemma bump_Cons:
  "bump (p # ps) k = (if fst p = k then (k, snd p + 1) # ps else p # bump ps k)"
  by (cases p) (simp add: bump_def obj_get_def)

lemma keys_bump:
  "map fst (bump ob k) = (if k \<in> fst ` set ob then map fst ob else map fst ob @ [k])"
  by (induction ob) (auto simp: bump_Nil bump_Cons)

lemma map_of_bump:
  "map_of (bump ob k) k' =
     (if k' = k then Some (case map_of ob k of None \<Rightarrow> 1 | Some c \<Rightarrow> c + 1) else map_of ob k')"
  by (induction ob) (auto simp: bump_Nil bump_Cons)

lemma tally_simps: "tally ob [] = ob" "tally ob (k # ks) = tally (bump ob k) ks"
  by (simp_all add: tally_def)

lemma filter_removeAll: "\<not> P k \<Longrightarrow> filter P (removeAll k xs) = filter P xs"
  by (induction xs) auto

lemma keys_tally:
  "map fst (tally ob ks) = map fst ob @ filter (\<lambda>k. k \<notin> fst ` set ob) (first_seen ks)"
proof (induction ks arbitrary: ob)
  case Nil
  then show ?case by (simp add: tally_simps)
next
  case (Cons k ks)
  show ?case
  proof (cases "k \<in> fst ` set ob")
    case True
    then have "fst ` set (bump ob k) = fst ` set ob"
      using keys_bump[of ob k] by (metis set_map)
    then show ?thesis
      using True Cons[of "bump ob k"] by (simp add: tally_simps keys_bump filter_removeAll)
  next
    case False
    then have "fst ` set (bump ob k) = insert k (fst ` set ob)"
      using keys_bump[of ob k] by (metis set_map list.simps(15) set_append Un_insert_right sup_bot.right_neutral list.set(1))
    then show ?thesis
      using False Cons[of "bump ob k"]
      by (simp add: tally_simps keys_bump removeAll_filter_not_eq eq_commute[of k])
  qed
qed

lemma map_of_tally:
  "map_of (tally ob ks) k =
     (if k \<in> set ks then Some ((case map_of ob k of None \<Rightarrow> 0 | Some c \<Rightarrow> c) + count_list ks k)
      else map_of ob k)"
  by (induction ks arbitrary: ob) (auto simp: tally_simps map_of_bump split: option.splits)

lemma set_first_seen: "set (first_seen xs) = set xs"
  by (induction xs) auto

lemma distinct_first_seen: "distinct (first_seen xs)"
  by (induction xs) (auto simp: distinct_removeAll)

lemma alist_self: "distinct (map fst xs) \<Longrightarrow> map (\<lambda>p. (fst p, the (map_of xs (fst p)))) xs = xs"
proof (induction xs)
  case Nil
  then show ?case by simp
next
  case (Cons p xs)
  have "map (\<lambda>q. (fst q, the (map_of (p # xs) (fst q)))) xs
      = map (\<lambda>q. (fst q, the (map_of xs (fst q)))) xs"
  proof (rule map_cong[OF refl])
    fix q assume "q \<in> set xs"
    then have "fst q \<noteq> fst p" using Cons.prems by (auto simp: image_iff)
    then show "(fst q, the (map_of (p # xs) (fst q))) = (fst q, the (map_of xs (fst q)))"
      by (cases p) simp
  qed
  moreover from Cons have "map (\<lambda>q. (fst q, the (map_of xs (fst q)))) xs = xs"
    by simp
  ultimately have tl: "map (\<lambda>q. (fst q, the (map_of (p # xs) (fst q)))) xs = xs"
    by (rule trans)
  have hd: "(fst p, the (map_of (p # xs) (fst p))) = p"
    by (cases p) simp
  show ?case
    by (simp only: list.map tl hd)
qed

lemma alist_eq: "distinct (map fst xs) \<Longrightarrow> xs = map (\<lambda>k. (k, the (map_of xs k))) (map fst xs)"
  using alist_self[of xs] by (simp add: o_def)

lemma tally_eq: "tally [] ks = map (\<lambda>k. (k, count_list ks k)) (first_seen ks)"
proof -
  have keys: "map fst (tally [] ks) = first_seen ks"
    by (simp add: keys_tally)
  then have "distinct (map fst (tally [] ks))"
    by (simp add: distinct_first_seen)
  then have "tally [] ks = map (\<lambda>k. (k, the (map_of (tally [] ks) k))) (first_seen ks)"
    using alist_eq keys by metis
  also have "\<dots> = map (\<lambda>k. (k, count_list ks k)) (first_seen ks)"
    by (rule map_cong) (simp_all add: map_of_tally set_first_seen)
  finally show ?thesis .
qed

lemma map_snd_index_filter:
  "map snd (List.map_filter (\<lambda>x. map_option (\<lambda>n. (n, x)) (a x)) xs) = filter (\<lambda>x. a x \<noteq> None) xs"
  by (induction xs) (auto simp: List.map_filter_simps split: option.splits)

lemma mset_property_order: "mset (property_order key xs) = mset xs"
proof -
  let ?ys = "List.map_filter (\<lambda>x. map_option (\<lambda>n. (n, x)) (array_index (key x))) xs"
  have "mset (map snd (sort_key fst ?ys)) = mset (map snd ?ys)"
    by simp
  also have "\<dots> = mset (filter (\<lambda>x. array_index (key x) \<noteq> None) xs)"
    by (simp only: map_snd_index_filter)
  finally show ?thesis
    by (simp add: property_order_def)
qed

lemma set_property_order: "set (property_order key xs) = set xs"
  using mset_property_order[of key xs] by (metis set_mset_mset)

lemma insort_key_map:
  "insort_key f (g x) (map g ys) = map g (insort_key (\<lambda>y. f (g y)) x ys)"
  by (induction ys) auto

lemma sort_key_map: "sort_key f (map g xs) = map g (sort_key (\<lambda>y. f (g y)) xs)"
  by (induction xs) (simp_all add: insort_key_map)

lemma map_filter_map:
  "List.map_filter h (map g xs) = List.map_filter (\<lambda>x. h (g x)) xs"
  by (induction xs) (auto simp: List.map_filter_simps split: option.splits)

lemma map_property_order:
  assumes "\<And>x. key' (f x) = key x"
  shows "map f (property_order key xs) = property_order key' (map f xs)"
proof -
  let ?g = "\<lambda>x. map_option (\<lambda>n. (n, x)) (array_index (key x))"
  let ?g' = "\<lambda>x. map_option (\<lambda>n. (n, x)) (array_index (key' x))"
  have "List.map_filter ?g' (map f xs) = map (\<lambda>p. (fst p, f (snd p))) (List.map_filter ?g xs)"
    by (induction xs) (auto simp: List.map_filter_simps assms split: option.splits)
  then have "map snd (sort_key fst (List.map_filter ?g' (map f xs)))
      = map f (map snd (sort_key fst (List.map_filter ?g xs)))"
    by (simp add: sort_key_map o_def)
  moreover have "filter (\<lambda>x. array_index (key' x) = None) (map f xs)
      = map f (filter (\<lambda>x. array_index (key x) = None) xs)"
    by (simp add: filter_map o_def assms)
  ultimately show ?thesis
    by (simp add: property_order_def)
qed

lemma insert_by_insort:
  assumes "\<And>y. y \<in> set ys \<Longrightarrow> positive (cmp x y) = (f y < f x)"
  shows "insert_by cmp x ys = insort_key f x ys"
  using assms by (induction ys) (auto simp: not_less)

lemma sort_by_sort_key:
  fixes f :: "'a \<Rightarrow> int"
  assumes "\<And>x y. x \<in> set xs \<Longrightarrow> y \<in> set xs \<Longrightarrow> positive (cmp x y) = (f y < f x)"
  shows "sort_by cmp xs = sort_key f xs"
  using assms
proof (induction xs)
  case Nil
  then show ?case by (simp add: sort_by_def)
next
  case (Cons x xs)
  then have ih: "sort_by cmp xs = sort_key f xs" by simp
  have "insert_by cmp x (sort_key f xs) = insort_key f x (sort_key f xs)"
    by (rule insert_by_insort) (use Cons.prems in simp)
  then show ?case using ih by (simp add: sort_by_def)
qed

lemma sort_key_unique:
  fixes f :: "'a \<Rightarrow> int"
  assumes "distinct (map f L)" "set L = g ` S" "\<And>s. s \<in> S \<Longrightarrow> f (g s) = s"
  shows "sort_key f L = map g (sorted_list_of_set S)"
proof -
  let ?R = "sort_key f L"
  have fin: "finite S"
  proof -
    have "S = f ` set L" using assms(2,3) by force
    then show ?thesis by simp
  qed
  have S: "set (map f ?R) = S" using assms(2,3) by force
  have "sorted (map f ?R)" by simp
  moreover have "distinct (map f ?R)" using assms(1) by (simp add: distinct_map)
  ultimately have keys: "map f ?R = sorted_list_of_set S"
    using S fin by (metis sorted_list_of_set.idem_if_sorted_distinct)
  have "map (\<lambda>e. g (f e)) ?R = map (\<lambda>e. e) ?R"
    by (rule map_cong) (use assms(2,3) in auto)
  then have "?R = map g (map f ?R)" by (simp add: o_def)
  then show ?thesis using keys by simp
qed

lemma tally_append: "tally ob (xs @ ys) = tally (tally ob xs) ys"
  by (simp add: tally_def)


lemma obj_get_counts_of: "obj_get (counts_of ob) k = map_option Count (obj_get ob k)"
  by (induction ob) (auto simp: counts_of_def obj_get_def)

lemma obj_set_counts_of: "obj_set (counts_of ob) k (Count v) = counts_of (obj_set ob k v)"
  by (induction ob) (auto simp: counts_of_def)

lemma increment_counts_of:
  "\<not> prototype_member k \<Longrightarrow> increment (counts_of ob) k = counts_of (bump ob k)"
  by (cases "obj_get ob k")
     (simp_all add: increment_def bump_def obj_get_counts_of obj_set_counts_of prototype_member_def)

lemma fold_increment:
  "\<forall>k\<in>set ks. \<not> prototype_member k \<Longrightarrow>
   fold (\<lambda>k counts. increment counts k) ks (counts_of ob) = counts_of (tally ob ks)"
  by (induction ks arbitrary: ob) (simp_all add: tally_simps increment_counts_of)

lemma year_keys_simps:
  "year_keys [] = []"
  "year_keys (w # ws) =
     (case year w of None \<Rightarrow> year_keys ws
      | Some y \<Rightarrow> if truthy_number y then number_to_string y # year_keys ws else year_keys ws)"
  by (simp_all add: year_keys_def List.map_filter_simps split: option.splits)

lemma count_work_fold:
  "fold count_work ws (yc, tc) =
     (fold (\<lambda>k counts. increment counts k) (year_keys ws) yc,
      fold (\<lambda>k counts. increment counts k) (map type_label ws) tc)"
proof (induction ws arbitrary: yc tc)
  case Nil
  then show ?case by (simp add: year_keys_simps)
next
  case (Cons w ws)
  have step: "count_work w (yc, tc) =
      (fold (\<lambda>k counts. increment counts k) (year_keys [w]) yc, increment tc (type_label w))"
    by (auto simp: count_work_def year_keys_simps type_label_def split: option.splits)
  have app: "year_keys (w # ws) = year_keys [w] @ year_keys ws"
    by (simp add: year_keys_simps split: option.splits)
  show ?case
    by (simp add: step Cons app)
qed

lemma year_keys_append: "year_keys (xs @ ys) = year_keys xs @ year_keys ys"
  by (simp add: year_keys_def List.map_filter_def)

lemma count_profile_fold:
  "fold count_profile ps (n, yc, tc) =
     (n + length (all_works ps),
      fold (\<lambda>k counts. increment counts k) (year_keys (all_works ps)) yc,
      fold (\<lambda>k counts. increment counts k) (map type_label (all_works ps)) tc)"
proof (induction ps arbitrary: n yc tc)
  case Nil
  then show ?case by (simp add: all_works_def year_keys_simps)
next
  case (Cons p ps)
  have step: "count_profile p (n, yc, tc) =
      (n + length (works p), fold (\<lambda>k counts. increment counts k) (year_keys (works p)) yc,
       fold (\<lambda>k counts. increment counts k) (map type_label (works p)) tc)"
    by (simp add: count_profile_def count_work_fold)
  show ?case
    by (simp add: step Cons) (simp add: all_works_def year_keys_append)
qed

lemma stats_fields:
  assumes "ps \<noteq> []"
  shows "stats ps = Some \<lparr>
      totalResearchers = length ps,
      totalPublications = length (all_works ps),
      avgPublications = real (length (all_works ps)) / real (length ps),
      publicationsByYear =
        sort_by (\<lambda>a b. minus_number (fst a) (fst b))
          (map (\<lambda>(year, count). (parseInt year None, count))
             (entries (fold (\<lambda>k counts. increment counts k) (year_keys (all_works ps)) []))),
      publicationsByType =
        sort_by (\<lambda>a b. minus_number (count_number (snd b)) (count_number (snd a)))
          (entries (fold (\<lambda>k counts. increment counts k) (map type_label (all_works ps)) [])),
      processedProfiles = ps \<rparr>"
  using assms by (simp add: stats_def count_profile_fold Let_def)

lemma length_all_works: "length (all_works ps) = sum_list (map (\<lambda>p. length (works p)) ps)"
  by (simp add: all_works_def length_concat o_def)

text \<open>
  Claim C2, as the code has it. The empty sequence gives no summary. For a sequence that
  is not empty, \<open>totalPublications\<close> is the sum of the work counts, \<open>totalResearchers\<close>
  the length of the sequence and \<open>avgPublications\<close> their quotient.
\<close>

theorem stats_counts:
  "stats [] = None
   \<and> (ps \<noteq> [] \<longrightarrow>
        (\<exists>s. stats ps = Some s
           \<and> totalPublications s = sum_list (map (\<lambda>p. length (works p)) ps)
           \<and> totalResearchers s = length ps
           \<and> avgPublications s = real (totalPublications s) / real (totalResearchers s)))"
  by (simp add: stats_fields length_all_works) (simp add: stats_def)

theorem stats_counts_witness:
  "stats [] = None
   \<and> (\<exists>s. stats [profile_of [work_of None None, work_of None None], profile_of [work_of None None]] = Some s
         \<and> totalPublications s = 3 \<and> totalResearchers s = 2 \<and> avgPublications s = 3 / 2)"
  using stats_counts [of "[profile_of [work_of None None, work_of None None], profile_of [work_of None None]]"]
  by (auto simp: profile_of_def)

text \<open>
  The claim as stated fails on the empty sequence: no summary is produced, so there is no
  average that is 0.
\<close>

theorem stats_empty_counterexample:
  "\<not> (\<exists>s. stats [] = Some s \<and> avgPublications s = 0)"
  by (simp add: stats_def)

lemma prototype_member_head:
  "prototype_member k \<Longrightarrow> k \<noteq> [] \<and> \<not> is_digit (hd k) \<and> hd k \<noteq> CHR ''-''"
  by (auto simp: prototype_member_def object_prototype_def is_digit_def)

lemma year_key_plain:
  "double_int y \<Longrightarrow> \<bar>y\<bar> < 10 ^ 21 \<Longrightarrow> \<not> prototype_member (year_key y)"
  unfolding year_key_def
  using number_to_string_head[of y] prototype_member_head[of "number_to_string (Fin y)"] by blast

lemma parseInt_year_key:
  "double_int y \<Longrightarrow> \<bar>y\<bar> < 10 ^ 21 \<Longrightarrow> parseInt (year_key y) None = Fin y"
  by (simp add: year_key_def parseInt_number_to_string)

lemma counted_year_Some: "counted_year w = Some y \<longleftrightarrow> y \<noteq> 0 \<and> year w = Some (Fin y)"
  by (auto simp: counted_year_def split: option.splits number.splits)

lemma set_map_filter: "set (List.map_filter f xs) = {y. \<exists>x\<in>set xs. f x = Some y}"
  by (induction xs) (auto simp: List.map_filter_simps split: option.splits)

lemma set_counted_years:
  "set (counted_years ws) = {y. y \<noteq> 0 \<and> (\<exists>w\<in>set ws. year w = Some (Fin y))}"
  by (auto simp: counted_years_def set_map_filter counted_year_Some)

lemma count_counted_years:
  "y \<noteq> 0 \<Longrightarrow> count_list (counted_years ws) y = length (filter (\<lambda>w. year w = Some (Fin y)) ws)"
  by (induction ws)
     (auto simp: counted_years_def List.map_filter_simps counted_year_def
        split: option.splits number.splits if_splits)

lemma year_keys_digit:
  "\<forall>w\<in>set ws. digit_year (year w) \<Longrightarrow>
   year_keys ws = map year_key (counted_years ws)"
proof (induction ws)
  case Nil
  then show ?case by (simp add: year_keys_simps counted_years_def List.map_filter_simps)
next
  case (Cons w ws)
  then have ih: "year_keys ws = map year_key (counted_years ws)"
    and w: "digit_year (year w)" by simp_all
  show ?case
  proof (cases "year w")
    case None
    then show ?thesis
      using ih by (simp add: year_keys_simps counted_years_def List.map_filter_simps counted_year_def)
  next
    case (Some y)
    then show ?thesis
      using ih w
      by (cases y)
         (simp_all add: year_keys_simps counted_years_def List.map_filter_simps counted_year_def
            year_key_def)
  qed
qed

lemma counted_years_digit:
  assumes "\<forall>w\<in>set ws. digit_year (year w)" "y \<in> set (counted_years ws)"
  shows "double_int y \<and> \<bar>y\<bar> < 10 ^ 21"
proof -
  obtain w where "w \<in> set ws" "year w = Some (Fin y)"
    using assms(2) by (auto simp: set_counted_years)
  then show ?thesis using assms(1) by force
qed

lemma removeAll_map_inj_on:
  "inj_on f (insert x (set ys)) \<Longrightarrow> removeAll (f x) (map f ys) = map f (removeAll x ys)"
  by (induction ys) (auto simp: inj_on_def)

lemma first_seen_map:
  "inj_on f (set xs) \<Longrightarrow> first_seen (map f xs) = map f (first_seen xs)"
proof (induction xs)
  case Nil
  then show ?case by simp
next
  case (Cons x xs)
  have "inj_on f (insert x (set (first_seen xs)))"
    using Cons.prems by (simp add: set_first_seen)
  then have "removeAll (f x) (map f (first_seen xs)) = map f (removeAll x (first_seen xs))"
    by (rule removeAll_map_inj_on)
  moreover have "inj_on f (set xs)" using Cons.prems by (simp add: inj_on_def)
  ultimately show ?case using Cons.IH by simp
qed

lemma count_list_map_inj_on:
  "inj_on f (insert x (set xs)) \<Longrightarrow> count_list (map f xs) (f x) = count_list xs x"
  by (induction xs) (auto simp: inj_on_def)

lemma inj_on_year_key:
  assumes "\<forall>y\<in>S. double_int y \<and> \<bar>y\<bar> < 10 ^ 21"
  shows "inj_on year_key S"
proof (rule inj_onI)
  fix a b assume a: "a \<in> S" and b: "b \<in> S"
    and eq: "year_key a = year_key b"
  have "Fin a = parseInt (year_key a) None"
    using a assms by (simp add: parseInt_year_key)
  also have "\<dots> = Fin b"
    unfolding eq using b assms by (simp add: parseInt_year_key)
  finally show "a = b" by simp
qed

lemma year_entries:
  assumes "\<forall>y\<in>set ys. double_int y \<and> \<bar>y\<bar> < 10 ^ 21"
  shows "mset (map (\<lambda>(year, count). (parseInt year None, count))
            (entries (tally [] (map year_key ys))))
     = mset (map (\<lambda>y. (Fin y, count_list ys y)) (first_seen ys))"
proof -
  let ?key = year_key
  note inj = inj_on_year_key[OF assms]
  have "tally [] (map ?key ys)
      = map (\<lambda>k. (k, count_list (map ?key ys) k)) (map ?key (first_seen ys))"
    by (simp only: tally_eq first_seen_map[OF inj])
  also have "\<dots> = map (\<lambda>y. (?key y, count_list (map ?key ys) (?key y))) (first_seen ys)"
    by (simp add: o_def)
  also have "\<dots> = map (\<lambda>y. (?key y, count_list ys y)) (first_seen ys)"
  proof (rule map_cong[OF refl])
    fix y assume "y \<in> set (first_seen ys)"
    then have "insert y (set ys) = set ys" by (auto simp: set_first_seen)
    then have "inj_on ?key (insert y (set ys))" using inj by simp
    then show "(?key y, count_list (map ?key ys) (?key y)) = (?key y, count_list ys y)"
      by (simp only: count_list_map_inj_on)
  qed
  finally have t: "tally [] (map ?key ys) = map (\<lambda>y. (?key y, count_list ys y)) (first_seen ys)" .
  then have "mset (entries (tally [] (map ?key ys)))
      = mset (map (\<lambda>y. (?key y, count_list ys y)) (first_seen ys))"
    by (simp only: entries_def mset_property_order)
  then have "mset (map (\<lambda>(year, count). (parseInt year None, count)) (entries (tally [] (map ?key ys))))
      = mset (map (\<lambda>(year, count). (parseInt year None, count))
          (map (\<lambda>y. (?key y, count_list ys y)) (first_seen ys)))"
    by (simp only: mset_map)
  also have "map (\<lambda>(year, count). (parseInt year None, count))
          (map (\<lambda>y. (?key y, count_list ys y)) (first_seen ys))
      = map (\<lambda>y. (Fin y, count_list ys y)) (first_seen ys)"
    using assms by (simp add: parseInt_year_key set_first_seen)
  finally show ?thesis .
qed

lemma year_histogram:
  assumes "\<forall>y\<in>set ys. double_int y \<and> \<bar>y\<bar> < 10 ^ 21"
  shows "sort_by (\<lambda>a b. minus_number (fst a) (fst b))
     (map (\<lambda>(year, count). (parseInt year None, count))
        (entries (tally [] (map year_key ys))))
   = map (\<lambda>y. (Fin y, count_list ys y)) (sorted_list_of_set (set ys))"
proof -
  let ?L = "map (\<lambda>(year, count). (parseInt year None, count))
        (entries (tally [] (map year_key ys)))"
  let ?g = "\<lambda>y. (Fin y, count_list ys y)"
  let ?f = "\<lambda>e :: number \<times> nat. int_of (fst e)"
  have ms: "mset ?L = mset (map ?g (first_seen ys))" by (rule year_entries[OF assms])
  then have set_L: "set ?L = ?g ` set ys"
    using mset_eq_setD[OF ms] by (simp add: set_first_seen)
  have "mset (map ?f ?L) = mset (map ?f (map ?g (first_seen ys)))"
    using ms by (simp only: mset_map)
  also have "map ?f (map ?g (first_seen ys)) = first_seen ys"
    by (simp add: o_def)
  finally have "distinct (map ?f ?L)"
    using distinct_first_seen[of ys] mset_eq_imp_distinct_iff[of "map ?f ?L" "first_seen ys"] by simp
  then have "sort_key ?f ?L = map ?g (sorted_list_of_set (set ys))"
    using set_L by (intro sort_key_unique) auto
  moreover have "sort_by (\<lambda>a b. minus_number (fst a) (fst b)) ?L = sort_key ?f ?L"
    by (rule sort_by_sort_key) (use set_L in \<open>auto simp: positive_to_number\<close>)
  ultimately show ?thesis by simp
qed

lemma entries_counts_of: "entries (counts_of ob) = counts_of (entries ob)"
  unfolding entries_def counts_of_def
  by (rule map_property_order[symmetric]) (simp add: case_prod_beta)

lemma insert_by_map:
  assumes "\<And>a b. cmp (g a) (g b) = cmp' a b"
  shows "insert_by cmp (g x) (map g ys) = map g (insert_by cmp' x ys)"
  by (induction ys) (simp_all add: assms)

lemma sort_by_map:
  assumes "\<And>a b. cmp (g a) (g b) = cmp' a b"
  shows "sort_by cmp (map g xs) = map g (sort_by cmp' xs)"
proof (induction xs)
  case Nil
  then show ?case by (simp add: sort_by_def)
next
  case (Cons x xs)
  have "insert_by cmp (g x) (map g (sort_by cmp' xs)) = map g (insert_by cmp' x (sort_by cmp' xs))"
    by (rule insert_by_map) (rule assms)
  then show ?case using Cons by (simp add: sort_by_def)
qed

lemma sort_by_counts_of_year:
  "sort_by (\<lambda>a b. minus_number (fst a) (fst b)) (counts_of xs)
     = counts_of (sort_by (\<lambda>a b. minus_number (fst a) (fst b)) xs)"
  unfolding counts_of_def by (rule sort_by_map) (simp add: case_prod_beta)

lemma sort_by_counts_of_type:
  "sort_by (\<lambda>a b. minus_number (count_number (snd b)) (count_number (snd a))) (counts_of xs)
     = counts_of (sort_key (\<lambda>e. - int (snd e)) xs)"
proof -
  have "sort_by (\<lambda>a b. minus_number (count_number (snd b)) (count_number (snd a))) (counts_of xs)
      = counts_of (sort_by (\<lambda>a b. to_number (int (snd b) - int (snd a))) xs)"
    unfolding counts_of_def by (rule sort_by_map) (simp add: case_prod_beta)
  moreover have "sort_by (\<lambda>a b. to_number (int (snd b) - int (snd a))) xs
      = sort_key (\<lambda>e. - int (snd e)) xs"
    by (rule sort_by_sort_key) (auto simp: positive_to_number)
  ultimately show ?thesis by simp
qed

lemma parse_counts_of:
  "map (\<lambda>(year, count). (parseInt year None, count)) (counts_of es)
     = counts_of (map (\<lambda>(year, count). (parseInt year None, count)) es)"
  by (simp add: counts_of_def case_prod_beta)

lemma counts_of_Nil: "counts_of [] = []"
  by (simp add: counts_of_def)

lemma stats_years:
  assumes "ps \<noteq> []" "\<forall>w\<in>set (all_works ps). digit_year (year w)"
  shows "\<exists>s. stats ps = Some s
     \<and> publicationsByYear s =
         counts_of (map (\<lambda>y. (Fin y, count_list (counted_years (all_works ps)) y))
           (sorted_list_of_set (set (counted_years (all_works ps)))))"
proof -
  let ?ys = "counted_years (all_works ps)"
  let ?key = year_key
  have v: "\<forall>y\<in>set ?ys. double_int y \<and> \<bar>y\<bar> < 10 ^ 21"
    using counted_years_digit[OF assms(2)] by blast
  have "\<forall>k\<in>set (map ?key ?ys). \<not> prototype_member k"
    using v by (auto simp: year_key_plain)
  then have "fold (\<lambda>k counts. increment counts k) (map ?key ?ys) (counts_of []) = counts_of (tally [] (map ?key ?ys))"
    by (rule fold_increment)
  then have "fold (\<lambda>k counts. increment counts k) (year_keys (all_works ps)) []
      = counts_of (tally [] (map ?key ?ys))"
    by (simp only: year_keys_digit[OF assms(2)] counts_of_Nil)
  then show ?thesis
    by (simp add: stats_fields[OF assms(1)] entries_counts_of parse_counts_of
        sort_by_counts_of_year year_histogram[OF v])
qed

lemma type_entries:
  "entries (tally [] ls) = map (\<lambda>l. (l, count_list ls l)) (property_order (\<lambda>l. l) (first_seen ls))"
  unfolding entries_def tally_eq
  by (rule map_property_order[symmetric]) simp

lemma stats_types:
  assumes "ps \<noteq> []" "\<forall>w\<in>set (all_works ps). \<not> prototype_member (type_label w)"
  shows "\<exists>s. stats ps = Some s
     \<and> publicationsByType s =
         counts_of (sort_key (\<lambda>e. - int (snd e))
           (map (\<lambda>l. (l, count_list (map type_label (all_works ps)) l))
              (property_order (\<lambda>l. l) (first_seen (map type_label (all_works ps))))))"
proof -
  let ?ls = "map type_label (all_works ps)"
  have "\<forall>k\<in>set ?ls. \<not> prototype_member k"
    using assms(2) by simp
  then have "fold (\<lambda>k counts. increment counts k) ?ls (counts_of []) = counts_of (tally [] ?ls)"
    by (rule fold_increment)
  then have "fold (\<lambda>k counts. increment counts k) ?ls [] = counts_of (tally [] ?ls)"
    by (simp only: counts_of_Nil)
  then show ?thesis
    by (simp add: stats_fields[OF assms(1)] entries_counts_of sort_by_counts_of_type type_entries)
qed

lemma set_counts_of: "set (counts_of xs) = (\<lambda>(k, c). (k, Count c)) ` set xs"
  by (simp add: counts_of_def)

lemma map_fst_counts_of: "map fst (counts_of xs) = map fst xs"
  by (simp add: counts_of_def case_prod_beta)

text \<open>
  Claim C5, as the code has it. When every year is one that \<open>String\<close> writes in digits,
  the years of \<open>publicationsByYear\<close> are strictly ascending and are exactly the years
  of the works that are integers other than zero; the count of an entry is the number of
  works with that year. A work whose year is \<open>null\<close>, zero or \<open>NaN\<close> has no entry.
\<close>

theorem year_histogram_contents:
  "ps \<noteq> [] \<Longrightarrow> \<forall>w\<in>set (all_works ps). digit_year (year w) \<Longrightarrow>
   \<exists>s ys. stats ps = Some s
     \<and> map fst (publicationsByYear s) = map Fin ys
     \<and> sorted_wrt (<) ys
     \<and> set ys = {y. y \<noteq> 0 \<and> (\<exists>w\<in>set (all_works ps). year w = Some (Fin y))}
     \<and> (\<forall>e\<in>set (publicationsByYear s).
           snd e = Count (length (filter (\<lambda>w. year w = Some (fst e)) (all_works ps))))"
proof -
  assume ne: "ps \<noteq> []" and dy: "\<forall>w\<in>set (all_works ps). digit_year (year w)"
  let ?ws = "all_works ps"
  let ?ys = "sorted_list_of_set (set (counted_years ?ws))"
  let ?H = "map (\<lambda>y. (Fin y, count_list (counted_years ?ws) y)) ?ys"
  obtain s where s: "stats ps = Some s" "publicationsByYear s = counts_of ?H"
    using stats_years[OF ne dy] by blast
  have "map fst (counts_of ?H) = map Fin ?ys" by (simp add: map_fst_counts_of o_def)
  moreover have "sorted_wrt (<) ?ys"
    by (simp add: strict_sorted_iff)
  moreover have "set ?ys = {y. y \<noteq> 0 \<and> (\<exists>w\<in>set ?ws. year w = Some (Fin y))}"
  proof -
    have "set ?ys = set (counted_years ?ws)" by simp
    then show ?thesis by (simp only: set_counted_years)
  qed
  moreover have "\<forall>e\<in>set (counts_of ?H).
      snd e = Count (length (filter (\<lambda>w. year w = Some (fst e)) ?ws))"
  proof
    fix e assume "e \<in> set (counts_of ?H)"
    then obtain y where y: "e = (Fin y, Count (count_list (counted_years ?ws) y))"
        "y \<in> set (counted_years ?ws)"
      by (auto simp: set_counts_of)
    then have "y \<noteq> 0" by (simp add: set_counted_years)
    then show "snd e = Count (length (filter (\<lambda>w. year w = Some (fst e)) ?ws))"
      using y(1) by (simp add: count_counted_years)
  qed
  ultimately show ?thesis using s by metis
qed

theorem year_histogram_contents_witness:
  "[profile_of [work_of (Some (Fin 2021)) None, work_of None None, work_of (Some (Fin 2019)) None],
    profile_of [work_of (Some (Fin 2021)) None, work_of (Some NaN) None]] \<noteq> []
   \<and> list_all (\<lambda>w. digit_year (year w))
        (all_works
          [profile_of [work_of (Some (Fin 2021)) None, work_of None None, work_of (Some (Fin 2019)) None],
           profile_of [work_of (Some (Fin 2021)) None, work_of (Some NaN) None]])
   \<and> (\<exists>s. stats [profile_of [work_of (Some (Fin 2021)) None, work_of None None, work_of (Some (Fin 2019)) None],
                   profile_of [work_of (Some (Fin 2021)) None, work_of (Some NaN) None]] = Some s
         \<and> publicationsByYear s = [(Fin 2019, Count 1), (Fin 2021, Count 2)])"
proof -
  let ?d = "[profile_of [work_of (Some (Fin 2021)) None, work_of None None, work_of (Some (Fin 2019)) None],
    profile_of [work_of (Some (Fin 2021)) None, work_of (Some NaN) None]]"
  have v: "map_option publicationsByYear (stats ?d) = Some [(Fin 2019, Count 1), (Fin 2021, Count 2)]"
    by code_simp
  have ne: "?d \<noteq> []" by simp
  have dy: "list_all (\<lambda>w. digit_year (year w)) (all_works ?d)"
    by code_simp
  then have "\<forall>w\<in>set (all_works ?d). digit_year (year w)"
    by (simp only: list_all_iff)
  from year_histogram_contents [OF ne this] show ?thesis
    using v dy by auto
qed

text \<open>
  The claim as stated fails for a year that is not \<open>null\<close> and falsy: the test
  \<open>if (work.year)\<close> skips the year 0. It also fails from \<open>10\<^sup>2\<^sup>1\<close> on, where the key
  of a year is written with an exponent and \<open>parseInt\<close> reads only its first digits:
  the years \<open>10\<^sup>2\<^sup>1\<close> and 1 give two entries for the year 1.
\<close>

theorem year_zero_counterexample:
  "map_option publicationsByYear (stats [profile_of [work_of (Some (Fin 0)) (Some ''BOOK'')]]) = Some []
   \<and> map_option publicationsByYear
        (stats [profile_of [work_of (Some (Fin (10 ^ 21))) None, work_of (Some (Fin 1)) None]])
       = Some [(Fin 1, Count 1), (Fin 1, Count 1)]"
  by code_simp

lemma distinct_property_order: "distinct xs \<Longrightarrow> distinct (property_order key xs)"
  using mset_property_order[of key xs] mset_eq_imp_distinct_iff by blast

lemma count_list_map: "count_list (map f xs) y = length (filter (\<lambda>x. f x = y) xs)"
  by (induction xs) auto

lemma type_label_Other:
  "type_label w = ''Other'' \<longleftrightarrow> type w = None \<or> type w = Some [] \<or> type w = Some ''Other''"
  by (auto simp: type_label_def split: option.splits)

text \<open>
  Claim C4, as the code has it. When no label names a member of \<open>Object.prototype\<close>,
  \<open>publicationsByType\<close> has one entry for each label (the type, or \<open>Other\<close> for a type
  that is missing or empty) with the number of works under it, is sorted by descending
  count, and lists entries of equal count in the order \<open>Object.entries\<close> gives them:
  labels that are array indices first, ascending, then the other labels as first seen.
  It has an \<open>Other\<close> entry exactly when some work has no type, an empty type or the type
  \<open>Other\<close>. The witness is the example of the specification.
\<close>

theorem type_histogram_contents:
  "ps \<noteq> [] \<Longrightarrow> \<forall>w\<in>set (all_works ps). \<not> prototype_member (type_label w) \<Longrightarrow>
   \<exists>s H. stats ps = Some s
     \<and> publicationsByType s = map (\<lambda>(l, n). (l, Count n)) H
     \<and> distinct (map fst H)
     \<and> set H =
         (\<lambda>l. (l, length (filter (\<lambda>w. type_label w = l) (all_works ps)))) ` type_label ` set (all_works ps)
     \<and> sorted_wrt (\<lambda>a b. snd b \<le> snd a) H
     \<and> (\<forall>c. map fst (filter (\<lambda>e. snd e = c) H) =
              filter (\<lambda>l. length (filter (\<lambda>w. type_label w = l) (all_works ps)) = c)
                (property_order (\<lambda>l. l) (first_seen (map type_label (all_works ps)))))
     \<and> (''Other'' \<in> fst ` set H \<longleftrightarrow>
          (\<exists>w\<in>set (all_works ps). type w = None \<or> type w = Some [] \<or> type w = Some ''Other''))"
proof -
  assume ne: "ps \<noteq> []"
    and plain: "\<forall>w\<in>set (all_works ps). \<not> prototype_member (type_label w)"
  let ?ws = "all_works ps"
  let ?ls = "map type_label ?ws"
  let ?n = "\<lambda>l. length (filter (\<lambda>w. type_label w = l) ?ws)"
  let ?po = "property_order (\<lambda>l. l) (first_seen ?ls)"
  let ?E = "map (\<lambda>l. (l, ?n l)) ?po"
  let ?f = "\<lambda>e :: string \<times> nat. - int (snd e)"
  let ?H = "sort_key ?f ?E"
  obtain s where s: "stats ps = Some s" "publicationsByType s = map (\<lambda>(l, n). (l, Count n)) ?H"
    using stats_types[OF ne plain] by (auto simp: count_list_map counts_of_def)
  have po_set: "set ?po = type_label ` set ?ws"
    by (simp add: set_property_order set_first_seen)
  have po_distinct: "distinct ?po"
    by (simp add: distinct_property_order distinct_first_seen)
  have "mset (map fst ?H) = mset (map fst ?E)"
    by (simp only: mset_map mset_sort)
  also have "map fst ?E = ?po"
    by (simp add: o_def)
  finally have d: "distinct (map fst ?H)"
    using po_distinct mset_eq_imp_distinct_iff[of "map fst ?H" ?po] by simp
  have st: "set ?H = (\<lambda>l. (l, ?n l)) ` type_label ` set ?ws"
    using po_set by simp
  have "sorted (map ?f ?H)" by simp
  then have so: "sorted_wrt (\<lambda>a b. snd b \<le> snd a) ?H"
    by (simp add: sorted_map)
  have ties: "map fst (filter (\<lambda>e. snd e = c) ?H) = filter (\<lambda>l. ?n l = c) ?po" for c
  proof -
    have "filter (\<lambda>e. snd e = c) ?H = filter (\<lambda>e. ?f e = - int c) ?H"
      by (rule filter_cong) auto
    also have "\<dots> = filter (\<lambda>e. ?f e = - int c) ?E"
      by (rule sort_key_stable)
    also have "\<dots> = filter (\<lambda>e. snd e = c) ?E"
      by (rule filter_cong) auto
    finally show ?thesis
      by (simp add: filter_map o_def)
  qed
  have other: "''Other'' \<in> fst ` set ?H \<longleftrightarrow>
      (\<exists>w\<in>set ?ws. type w = None \<or> type w = Some [] \<or> type w = Some ''Other'')"
  proof -
    have "fst ` set ?H = type_label ` set ?ws"
      unfolding st by (simp add: image_image)
    then have "''Other'' \<in> fst ` set ?H \<longleftrightarrow> (\<exists>w\<in>set ?ws. type_label w = ''Other'')"
      by (simp only: image_iff) metis
    then show ?thesis
      by (simp only: type_label_Other)
  qed
  show ?thesis
    using s d st so ties other by (intro exI[of _ s] exI[of _ ?H]) simp
qed

theorem type_histogram_contents_witness:
  "[profile_of [work_of None (Some ''JOURNAL_ARTICLE''), work_of None (Some ''JOURNAL_ARTICLE''),
                work_of None (Some []), work_of None None]] \<noteq> []
   \<and> list_all (\<lambda>w. \<not> prototype_member (type_label w))
        (all_works
          [profile_of [work_of None (Some ''JOURNAL_ARTICLE''), work_of None (Some ''JOURNAL_ARTICLE''),
                work_of None (Some []), work_of None None]])
   \<and> (\<exists>s. stats [profile_of [work_of None (Some ''JOURNAL_ARTICLE''), work_of None (Some ''JOURNAL_ARTICLE''),
                work_of None (Some []), work_of None None]] = Some s
         \<and> publicationsByType s = [(''JOURNAL_ARTICLE'', Count 2), (''Other'', Count 2)])"
proof -
  let ?d = "[profile_of [work_of None (Some ''JOURNAL_ARTICLE''), work_of None (Some ''JOURNAL_ARTICLE''),
                work_of None (Some []), work_of None None]]"
  have v: "map_option publicationsByType (stats ?d)
      = Some [(''JOURNAL_ARTICLE'', Count 2), (''Other'', Count 2)]"
    by code_simp
  have ne: "?d \<noteq> []" by simp
  have plain: "list_all (\<lambda>w. \<not> prototype_member (type_label w)) (all_works ?d)"
    by code_simp
  then have "\<forall>w\<in>set (all_works ?d). \<not> prototype_member (type_label w)"
    by (simp only: list_all_iff)
  from type_histogram_contents [OF ne this] show ?thesis
    using v plain by auto
qed

text \<open>
  The claim as stated fails twice: with every work labelled there is no \<open>Other\<close> entry,
  and of two labels of equal count the one that is an array index comes first, although
  it was seen last. It also fails for a label that names a function of
  \<open>Object.prototype\<close>: the entry of the type \<open>toString\<close> has no count but a string.
\<close>

theorem type_histogram_counterexample:
  "map_option publicationsByType (stats [profile_of [work_of None (Some ''BOOK'')]])
     = Some [(''BOOK'', Count 1)]
   \<and> map_option publicationsByType
        (stats [profile_of [work_of None (Some ''B''), work_of None (Some ''7'')]])
      = Some [(''7'', Count 1), (''B'', Count 1)]
   \<and> map_option publicationsByType (stats [profile_of [work_of None (Some ''toString'')]])
      = Some [(''toString'', Junk ''toString'' 1)]"
  by code_simp


lemma length_counted_years:
  "length (counted_years ws) = length (filter (\<lambda>w. counted_year w \<noteq> None) ws)"
  by (induction ws) (auto simp: counted_years_def List.map_filter_simps split: option.splits)

lemma length_filter_eq_iff: "length (filter P xs) = length xs \<longleftrightarrow> (\<forall>x\<in>set xs. P x)"
proof (induction xs)
  case Nil
  then show ?case by simp
next
  case (Cons x xs)
  show ?case
  proof (cases "P x")
    case True
    then show ?thesis using Cons by simp
  next
    case False
    have "length (filter P xs) < Suc (length xs)"
      by (simp add: le_imp_less_Suc)
    then show ?thesis using False by auto
  qed
qed

lemma sum_count_distinct:
  assumes "distinct xs" "set xs = set ks"
  shows "sum_list (map (count_list ks) xs) = length ks"
proof -
  have "sum_list (map (count_list ks) xs) = sum (count_list ks) (set xs)"
    using assms(1) by (simp add: sum.distinct_set_conv_list)
  also have "\<dots> = (\<Sum>x\<in>set_mset (mset ks). count (mset ks) x)"
    by (simp add: assms(2) count_mset)
  also have "\<dots> = size (mset ks)"
    by (simp add: size_multiset_overloaded_eq)
  finally show ?thesis by simp
qed

lemma sum_list_mset_cong: "mset xs = mset ys \<Longrightarrow> sum_list (map h xs) = sum_list (map h ys)"
  for h :: "'a \<Rightarrow> nat"
  by (metis mset_map sum_mset_sum_list)

lemma sum_year_histogram:
  "sum_list (map snd (map (\<lambda>y. (Fin y, count_list ys y)) (sorted_list_of_set (set ys)))) = length ys"
  by (simp add: o_def sum_count_distinct)

lemma sum_type_histogram:
  "sum_list (map snd (sort_key (\<lambda>e. - int (snd e))
       (map (\<lambda>l. (l, count_list ls l)) (property_order (\<lambda>l. l) (first_seen ls))))) = length ls"
proof -
  have "sum_list (map snd (sort_key (\<lambda>e. - int (snd e))
       (map (\<lambda>l. (l, count_list ls l)) (property_order (\<lambda>l. l) (first_seen ls)))))
     = sum_list (map snd (map (\<lambda>l. (l, count_list ls l)) (property_order (\<lambda>l. l) (first_seen ls))))"
    by (rule sum_list_mset_cong) simp
  also have "\<dots> = sum_list (map (count_list ls) (property_order (\<lambda>l. l) (first_seen ls)))"
    by (simp add: o_def)
  finally show ?thesis
    by (simp add: sum_count_distinct distinct_property_order distinct_first_seen
        set_property_order set_first_seen)
qed


lemma map_snd_counts_of: "map snd (counts_of xs) = map Count (map snd xs)"
  by (simp add: counts_of_def case_prod_beta)

text \<open>
  Where no label names a member of \<open>Object.prototype\<close>, the counts of
  \<open>publicationsByType\<close> are numbers that add up to \<open>totalPublications\<close>. Where every
  year is one that \<open>String\<close> writes in digits, the counts of \<open>publicationsByYear\<close> are
  numbers that add up to at most that, and to exactly that when every work has a year
  that is counted.
\<close>

lemma stats_total: "stats ps = Some s \<Longrightarrow> totalPublications s = length (all_works ps)"
  by (auto simp: stats_def count_profile_fold Let_def split: if_splits)

lemma type_counts_total:
  assumes "ps \<noteq> []" "\<forall>w\<in>set (all_works ps). \<not> prototype_member (type_label w)"
  shows "\<exists>s ns. stats ps = Some s \<and> map snd (publicationsByType s) = map Count ns
     \<and> sum_list ns = totalPublications s"
proof -
  let ?ls = "map type_label (all_works ps)"
  let ?H = "sort_key (\<lambda>e. - int (snd e))
           (map (\<lambda>l. (l, count_list ?ls l)) (property_order (\<lambda>l. l) (first_seen ?ls)))"
  obtain s where s: "stats ps = Some s" "publicationsByType s = counts_of ?H"
    using stats_types[OF assms] by blast
  have "totalPublications s = length (all_works ps)"
    using s(1) by (rule stats_total)
  then have sum: "sum_list (map snd ?H) = totalPublications s"
    by (simp add: sum_type_histogram)
  show ?thesis
  proof (intro exI conjI)
    show "stats ps = Some s" by fact
    show "map snd (publicationsByType s) = map Count (map snd ?H)"
      unfolding s(2) by (rule map_snd_counts_of)
    show "sum_list (map snd ?H) = totalPublications s" by fact
  qed
qed

lemma year_counts_total:
  assumes "ps \<noteq> []" "\<forall>w\<in>set (all_works ps). digit_year (year w)"
  shows "\<exists>s ns. stats ps = Some s \<and> map snd (publicationsByYear s) = map Count ns
     \<and> sum_list ns \<le> totalPublications s
     \<and> (sum_list ns = totalPublications s \<longleftrightarrow> (\<forall>w\<in>set (all_works ps). counted_year w \<noteq> None))"
proof -
  let ?ws = "all_works ps"
  let ?H = "map (\<lambda>y. (Fin y, count_list (counted_years ?ws) y))
           (sorted_list_of_set (set (counted_years ?ws)))"
  obtain s where s: "stats ps = Some s" "publicationsByYear s = counts_of ?H"
    using stats_years[OF assms] by blast
  have t: "totalPublications s = length ?ws"
    using s(1) by (rule stats_total)
  have sum: "sum_list (map snd ?H) = length (counted_years ?ws)"
    by (rule sum_year_histogram)
  have "length (counted_years ?ws) \<le> length ?ws"
    by (simp add: length_counted_years)
  moreover have "length (counted_years ?ws) = length ?ws \<longleftrightarrow> (\<forall>w\<in>set ?ws. counted_year w \<noteq> None)"
    by (simp add: length_counted_years length_filter_eq_iff)
  ultimately have le: "sum_list (map snd ?H) \<le> totalPublications s"
    and eq: "sum_list (map snd ?H) = totalPublications s \<longleftrightarrow> (\<forall>w\<in>set ?ws. counted_year w \<noteq> None)"
    by (simp_all only: sum t)
  show ?thesis
  proof (intro exI conjI)
    show "stats ps = Some s" by fact
    show "map snd (publicationsByYear s) = map Count (map snd ?H)"
      unfolding s(2) by (rule map_snd_counts_of)
    show "sum_list (map snd ?H) \<le> totalPublications s" by fact
    show "sum_list (map snd ?H) = totalPublications s \<longleftrightarrow> (\<forall>w\<in>set ?ws. counted_year w \<noteq> None)"
      by fact
  qed
qed

text \<open>
  Claim C10 fails in the code for a type that names a function of \<open>Object.prototype\<close>.
  The counting reads \<open>typeCounts[type] || 0\<close>; for the type \<open>constructor\<close> that is not 0
  but the inherited function, and adding 1 to it stores a string. One work of that type
  gives one publication and a type histogram whose only count is that string, which is
  no number: the counts of the types do not add up to the number of publications.
\<close>

theorem histogram_totals_constructor:
  "map_option (\<lambda>s. (totalPublications s, publicationsByType s, map (count_number \<circ> snd) (publicationsByType s)))
     (stats [profile_of [work_of (Some (Fin 2021)) (Some ''constructor'')]])
   = Some (1, [(''constructor'', Junk ''constructor'' 1)], [NaN])"
  by code_simp

section \<open>Properties of the Chat Context Builder\<close>

lemma join_comma: "join '', '' xs = comma_joined xs"
  by (induction xs rule: comma_joined.induct) simp_all

lemma slice_take: "slice 0 n xs = take n xs"
  by (simp add: slice_def)

lemma nearest_tenth:
  "\<bar>real_of_int (if up then \<lfloor>10 * a + 1 / 2\<rfloor> else \<lceil>10 * a - 1 / 2\<rceil>) / 10 - a\<bar> \<le> 1 / 20"
proof -
  have near: "\<bar>real_of_int n / 10 - a\<bar> \<le> 1 / 20"
    if "real_of_int n \<le> 10 * a + 1 / 2" "10 * a - 1 / 2 \<le> real_of_int n" for n
    unfolding abs_le_iff using that by (intro conjI; linarith)
  show ?thesis
  proof (cases up)
    case True
    have "\<bar>real_of_int \<lfloor>10 * a + 1 / 2\<rfloor> / 10 - a\<bar> \<le> 1 / 20"
      by (rule near; linarith)
    then show ?thesis using True by simp
  next
    case False
    have "\<bar>real_of_int \<lceil>10 * a - 1 / 2\<rceil> / 10 - a\<bar> \<le> 1 / 20"
      by (rule near; linarith)
    then show ?thesis using False by simp
  qed
qed

text \<open>
  Claim C9. Without a summary the instruction is the preamble. With a summary (whose
  average is in the range where \<open>toFixed\<close> writes decimals) it is the preamble followed
  by the briefing: the number of researchers, the number of publications, the average
  written with one decimal place (the tenth nearest to it), and the first three entries
  of the year histogram and of the type histogram, each as \<open>label (count)\<close>, joined by
  commas.
\<close>

theorem systemInstruction_briefing:
  "systemInstruction up None = preamble
   \<and> (\<bar>avgPublications c\<bar> < 10 ^ 21 \<longrightarrow>
       (\<exists>n. \<bar>real_of_int n / 10 - \<bar>avgPublications c\<bar>\<bar> \<le> 1 / 20
        \<and> systemInstruction up (Some c) =
            preamble
            @ [CHR 0x0A] @ indent @ [CHR 0x0A, CHR 0x0A] @ ''CURRENT DATA CONTEXT:''
            @ [CHR 0x0A] @ indent @ ''- Total Researchers Analyzed: '' @ show_nat (totalResearchers c)
            @ [CHR 0x0A] @ indent @ ''- Total Publications: '' @ show_nat (totalPublications c)
            @ [CHR 0x0A] @ indent @ ''- Average Publications per Researcher: ''
              @ (if avgPublications c < 0 then ''-'' else []) @ one_decimal n
            @ [CHR 0x0A] @ indent @ ''- Top Years: ''
              @ comma_joined (map (\<lambda>(y, k). label_count (number_to_string y) k)
                                (take 3 (publicationsByYear c)))
            @ [CHR 0x0A] @ indent @ ''- Top Types: ''
              @ comma_joined (map (\<lambda>(t, k). label_count t k) (take 3 (publicationsByType c)))
            @ [CHR 0x0A] @ indent
            @ [CHR 0x0A] @ indent @ ''Use this data to answer user questions about the specific analysis currently on screen. Be concise and professional.''
            @ [CHR 0x0A] @ indent))"
proof -
  let ?n = "if up then \<lfloor>10 * \<bar>avgPublications c\<bar> + 1 / 2\<rfloor> else \<lceil>10 * \<bar>avgPublications c\<bar> - 1 / 2\<rceil>"
  have "toFixed1 up (avgPublications c) = (if avgPublications c < 0 then ''-'' else []) @ one_decimal ?n"
    by (simp add: toFixed1_def one_decimal_def Let_def)
  moreover have "\<bar>real_of_int ?n / 10 - \<bar>avgPublications c\<bar>\<bar> \<le> 1 / 20"
    by (rule nearest_tenth)
  moreover have "(\<lambda>y. number_to_string (fst y) @ '' ('' @ count_text (snd y) @ '')'')
      = (\<lambda>(y, k). label_count (number_to_string y) k)"
    by (auto simp: label_count_def)
  moreover have "(\<lambda>t :: string \<times> count. fst t @ '' ('' @ count_text (snd t) @ '')'')
      = (\<lambda>(t, k). label_count t k)"
    by (auto simp: label_count_def)
  ultimately show ?thesis
    unfolding systemInstruction_def preamble_def join_comma slice_take
    by (intro conjI impI exI[of _ ?n]) simp_all
qed

theorem systemInstruction_briefing_witness:
  "\<bar>avgPublications example_stats\<bar> < 10 ^ 21
   \<and> systemInstruction True (Some example_stats) =
       preamble
       @ [CHR 0x0A] @ indent @ [CHR 0x0A, CHR 0x0A] @ ''CURRENT DATA CONTEXT:''
       @ [CHR 0x0A] @ indent @ ''- Total Researchers Analyzed: 2''
       @ [CHR 0x0A] @ indent @ ''- Total Publications: 7''
       @ [CHR 0x0A] @ indent @ ''- Average Publications per Researcher: 3.5''
       @ [CHR 0x0A] @ indent @ ''- Top Years: 2019 (1), 2020 (3), 2021 (2)''
       @ [CHR 0x0A] @ indent @ ''- Top Types: JOURNAL_ARTICLE (4), BOOK (2), Other (1)''
       @ [CHR 0x0A] @ indent
       @ [CHR 0x0A] @ indent @ ''Use this data to answer user questions about the specific analysis currently on screen. Be concise and professional.''
       @ [CHR 0x0A] @ indent"
proof -
  have range: "\<bar>avgPublications example_stats\<bar> < 10 ^ 21"
    by (simp add: example_stats_def)
  have av: "avgPublications example_stats = 7 / 2"
    and tr: "show_nat (totalResearchers example_stats) = ''2''"
    and tp: "show_nat (totalPublications example_stats) = ''7''"
    by (simp add: example_stats_def, code_simp, code_simp)
  have ys: "comma_joined (map (\<lambda>(y, k). label_count (number_to_string y) k)
              (take 3 (publicationsByYear example_stats))) = ''2019 (1), 2020 (3), 2021 (2)''"
    by code_simp
  have ts: "comma_joined (map (\<lambda>(t, k). label_count t k) (take 3 (publicationsByType example_stats)))
      = ''JOURNAL_ARTICLE (4), BOOK (2), Other (1)''"
    by code_simp
  from systemInstruction_briefing [of True example_stats] range
  obtain n where n: "\<bar>real_of_int n / 10 - \<bar>7 / 2 :: real\<bar>\<bar> \<le> 1 / 20"
    and text': "systemInstruction True (Some example_stats) =
            preamble
            @ [CHR 0x0A] @ indent @ [CHR 0x0A, CHR 0x0A] @ ''CURRENT DATA CONTEXT:''
            @ [CHR 0x0A] @ indent @ ''- Total Researchers Analyzed: '' @ ''2''
            @ [CHR 0x0A] @ indent @ ''- Total Publications: '' @ ''7''
            @ [CHR 0x0A] @ indent @ ''- Average Publications per Researcher: ''
              @ (if (7 / 2 :: real) < 0 then ''-'' else []) @ one_decimal n
            @ [CHR 0x0A] @ indent @ ''- Top Years: '' @ ''2019 (1), 2020 (3), 2021 (2)''
            @ [CHR 0x0A] @ indent @ ''- Top Types: '' @ ''JOURNAL_ARTICLE (4), BOOK (2), Other (1)''
            @ [CHR 0x0A] @ indent
            @ [CHR 0x0A] @ indent @ ''Use this data to answer user questions about the specific analysis currently on screen. Be concise and professional.''
            @ [CHR 0x0A] @ indent"
    unfolding av tr tp ys ts by blast
  have "real_of_int n \<le> 71 / 2" and "69 / 2 \<le> real_of_int n"
    using n unfolding abs_le_iff by linarith+
  then have "n \<le> \<lfloor>71 / 2 :: real\<rfloor>" and "\<lceil>69 / 2 :: real\<rceil> \<le> n"
    by (simp_all only: le_floor_iff ceiling_le_iff)
  then have "n = 35"
    by simp
  moreover have "one_decimal 35 = ''3.5''"
    by code_simp
  ultimately show ?thesis
    using range text' by simp
qed
section \<open>Properties of the Record Fetcher\<close>

lemma math_random_fields:
  "random (snd (math_random w)) = random w" "events (snd (math_random w)) = events w"
  "fst (math_random w) = random w (drawn w)"
  by (simp_all add: math_random_def)

lemma element_times:
  assumes "is_double r" "r < 1" "xs \<noteq> []"
  shows "\<exists>x\<in>set xs. element xs \<lfloor>times_double r (length xs)\<rfloor> = Some x"
proof -
  let ?i = "\<lfloor>times_double r (length xs)\<rfloor>"
  have "0 < length xs" using assms(3) by simp
  then have b: "0 \<le> ?i" "?i < int (length xs)"
    using floor_times_double[OF assms(1,2)] by simp_all
  then have "nat ?i < length xs" by linarith
  then have mem: "xs ! nat ?i \<in> set xs" by (rule nth_mem)
  have "element xs ?i = Some (xs ! nat ?i)"
    using b by (simp add: element_def)
  then show ?thesis using mem by blast
qed

lemma mock_works_props:
  assumes "\<forall>k. is_double (random w k) \<and> random w k < 1"
  shows "length (fst (mock_works orcid i n w)) = n
     \<and> (\<forall>x\<in>set (fst (mock_works orcid i n w)).
           year x \<in> Some ` Fin ` set years \<and> type x \<in> Some ` set types)
     \<and> events (snd (mock_works orcid i n w)) = events w"
  using assms
proof (induction n arbitrary: i w)
  case 0
  then show ?case by simp
next
  case (Suc n)
  obtain r1 w1 where m1: "math_random w = (r1, w1)" by (cases "math_random w")
  obtain r2 w2 where m2: "math_random w1 = (r2, w2)" by (cases "math_random w1")
  obtain rest w3 where m3: "mock_works orcid (Suc i) n w2 = (rest, w3)"
    by (cases "mock_works orcid (Suc i) n w2")
  have rw1: "random w1 = random w" "events w1 = events w" "r1 = random w (drawn w)"
    using m1 math_random_fields[of w] by simp_all
  have rw2: "random w2 = random w" "events w2 = events w" "r2 = random w (drawn w1)"
    using m2 math_random_fields[of w1] rw1 by simp_all
  have r: "is_double r1" "r1 < 1" "is_double r2" "r2 < 1"
    using Suc.prems rw1 rw2 by simp_all
  have ih: "length rest = n \<and> (\<forall>x\<in>set rest. year x \<in> Some ` Fin ` set years \<and> type x \<in> Some ` set types)
      \<and> events w3 = events w"
    using Suc.IH[of w2 "Suc i"] Suc.prems rw2 m3 by simp
  obtain y where y: "y \<in> set years" "element years \<lfloor>times_double r1 (length years)\<rfloor> = Some y"
    using element_times[OF r(1,2), of years] by (auto simp: years_def)
  obtain t where t: "t \<in> set types" "element types \<lfloor>times_double r2 (length types)\<rfloor> = Some t"
    using element_times[OF r(3,4), of types] by (auto simp: types_def)
  show ?case
    using ih y t by (simp add: m1 m2 m3)
qed

lemma generateMockData_props:
  assumes "\<forall>k. is_double (random w k) \<and> random w k < 1"
  shows "orcidId (fst (generateMockData orcid w)) = orcid
     \<and> 5 \<le> length (works (fst (generateMockData orcid w)))
     \<and> length (works (fst (generateMockData orcid w))) \<le> 24
     \<and> (\<forall>x\<in>set (works (fst (generateMockData orcid w))).
           year x \<in> Some ` Fin ` set years \<and> type x \<in> Some ` set types)
     \<and> events (snd (generateMockData orcid w)) = events w"
proof -
  obtain r w1 where m1: "math_random w = (r, w1)" by (cases "math_random w")
  have rw1: "random w1 = random w" "events w1 = events w" "r = random w (drawn w)"
    using m1 math_random_fields[of w] by simp_all
  have r: "is_double r" "r < 1" using assms rw1 by simp_all
  let ?n = "nat (\<lfloor>times_double r 20\<rfloor> + 5)"
  have "0 \<le> \<lfloor>times_double r 20\<rfloor> \<and> \<lfloor>times_double r 20\<rfloor> < int 20"
    by (rule floor_times_double[OF r]) simp
  then have n: "5 \<le> ?n" "?n \<le> 24" by linarith+
  obtain ws w2 where m2: "mock_works orcid 0 ?n w1 = (ws, w2)"
    by (cases "mock_works orcid 0 ?n w1")
  have "length ws = ?n \<and> (\<forall>x\<in>set ws. year x \<in> Some ` Fin ` set years \<and> type x \<in> Some ` set types)
      \<and> events w2 = events w"
    using mock_works_props[of w1 orcid 0 ?n] assms rw1 m2 by simp
  then show ?thesis
    using n by (simp add: generateMockData_def m1 m2)
qed

lemma fetchOrcidData_ok:
  "fetch_try (trim i) (network w (sent w) (request_url (trim i))) = Inr p \<Longrightarrow>
   fetchOrcidData i w = (Inr p, w\<lparr> sent := sent w + 1, events := events w @ [Request (request_url (trim i))] \<rparr>)"
  by (simp add: fetchOrcidData_def fetch_def Let_def)

lemma fetchOrcidData_fallback:
  "fetch_try (trim i) (network w (sent w) (request_url (trim i))) = Inl e \<Longrightarrow>
   fetchOrcidData i w =
     (let (p, w') = generateMockData (trim i)
           (set_timeout 500 (console_warn_reason (''API fetch failed for '' @ trim i
               @ '', using mock data for demonstration. Reason: '') e
              (w\<lparr> sent := sent w + 1, events := events w @ [Request (request_url (trim i))] \<rparr>)))
      in (Inr p, w'))"
  by (simp add: fetchOrcidData_def fetch_def Let_def)

lemma fetchOrcidData_synthetic:
  assumes rnd: "\<forall>k. is_double (random w k) \<and> random w k < 1"
    and fail: "fetch_try (trim i) (network w (sent w) (request_url (trim i))) = Inl e"
  shows "\<exists>p w'. fetchOrcidData i w = (Inr p, w')
              \<and> orcidId p = trim i
              \<and> 5 \<le> length (works p) \<and> length (works p) \<le> 24
              \<and> (\<forall>x\<in>set (works p). year x \<in> Some ` Fin ` set years \<and> type x \<in> Some ` set types)
              \<and> events w' = events w @
                  [Request (request_url (trim i)),
                   WarnReason (''API fetch failed for '' @ trim i
                     @ '', using mock data for demonstration. Reason: '') e,
                   Sleep 500]"
proof -
  let ?w3 = "set_timeout 500 (console_warn_reason (''API fetch failed for '' @ trim i
               @ '', using mock data for demonstration. Reason: '') e
              (w\<lparr> sent := sent w + 1, events := events w @ [Request (request_url (trim i))] \<rparr>))"
  obtain p w' where g: "generateMockData (trim i) ?w3 = (p, w')"
    by (cases "generateMockData (trim i) ?w3")
  have "\<forall>k. is_double (random ?w3 k) \<and> random ?w3 k < 1"
    using rnd by (simp add: set_timeout_def console_warn_reason_def)
  from generateMockData_props[OF this, of "trim i"] g
  have "orcidId p = trim i \<and> 5 \<le> length (works p) \<and> length (works p) \<le> 24
      \<and> (\<forall>x\<in>set (works p). year x \<in> Some ` Fin ` set years \<and> type x \<in> Some ` set types)
      \<and> events w' = events ?w3"
    by simp
  moreover have "fetchOrcidData i w = (Inr p, w')"
    using fetchOrcidData_fallback[OF fail] g by (simp add: Let_def)
  moreover have "events ?w3 = events w @
                  [Request (request_url (trim i)),
                   WarnReason (''API fetch failed for '' @ trim i
                     @ '', using mock data for demonstration. Reason: '') e,
                   Sleep 500]"
    by (simp add: set_timeout_def console_warn_reason_def)
  ultimately show ?thesis by simp
qed

lemma and_then_Inr [simp]: "and_then (Inr x) f = f x"
  by (simp add: and_then_def)

lemma and_then_Inl [simp]: "and_then (Inl e) f = Inl e"
  by (simp add: and_then_def)

lemma value_at_undefined [simp]: "value_at JUndefined ks = JUndefined"
  by (cases ks) simp_all


lemma get_value_at: "plain_key k \<Longrightarrow> \<not> nullish v \<Longrightarrow> get v k = Inr (value_at v [k])"
  by (cases v) (simp_all add: plain_key_def nullish_def split: option.splits)


declare value_at.simps [simp del]

lemma plain_keys:
  "plain_key ''work-summary''" "plain_key ''publication-date''" "plain_key ''year''"
  "plain_key ''value''" "plain_key ''title''" "plain_key ''type''" "plain_key ''put-code''"
  "plain_key ''external-ids''" "plain_key ''external-id''" "plain_key ''external-id-type''"
  "plain_key ''external-id-value''" "plain_key ''group''"
  by code_simp+

lemma array_index_zero: "array_index ''0'' = Some 0"
  by code_simp

lemma object_not_nullish: "is_object v \<Longrightarrow> \<not> nullish v"
  by (cases v) (simp_all add: nullish_def)

lemma get_object: "plain_key k \<Longrightarrow> is_object v \<Longrightarrow> get v k = Inr (value_at v [k])"
  by (simp add: get_value_at object_not_nullish)

lemma bits_power2: "bits (2 ^ k) = Suc k"
proof (induction k)
  case 0
  then show ?case by (simp add: bits_pos)
next
  case (Suc k)
  have "bits (2 ^ Suc k) = Suc (bits (2 ^ Suc k div 2))"
    by (rule bits_pos) simp
  then show ?case using Suc by simp
qed

lemma round53_power2: "round53 (2 ^ k) = 2 ^ k"
proof (cases "k < 53")
  case True
  then have "(2::int) ^ k < 2 ^ 53" by (simp only: power_strict_increasing_iff)
  then show ?thesis by (rule round53_small)
next
  case False
  define s where "s = k - 53"
  have k: "k = 52 + Suc s" using False by (simp add: s_def)
  have p: "(2::int) ^ k = 2 ^ 52 * 2 ^ Suc s" unfolding k by (rule power_add)
  have b: "bits (2 ^ k) - 53 = Suc s" "\<not> bits (2 ^ k) \<le> 53"
    by (simp_all add: bits_power2 k)
  have d: "(2::int) ^ k div 2 ^ Suc s = 2 ^ 52" "(2::int) ^ k mod 2 ^ Suc s = 0"
    unfolding p by simp_all
  show ?thesis
    unfolding round53_def b d Let_def using p by simp
qed

lemma is_double_half: "is_double (1 / 2)"
proof -
  have "(1 / 2 :: real) * 2 ^ 1074 = 2 ^ 1073" by simp
  then have s: "double_steps (1 / 2) = 2 ^ 1073"
    unfolding double_steps_def by simp
  show ?thesis
    unfolding is_double_def s
  proof (intro conjI)
    show "0 \<le> (1 / 2 :: real)" by simp
    have "(1 :: real) \<le> 2 ^ 1024" by (rule one_le_power) simp
    then show "(1 / 2 :: real) < 2 ^ 1024" by linarith
    show "of_int (2 ^ 1073) = (1 / 2 :: real) * 2 ^ 1074" by simp
    show "round53 (2 ^ 1073) = 2 ^ 1073" by (rule round53_power2)
  qed
qed

lemma trim_example: "trim '' 0000-0002-1825-0097 '' = ''0000-0002-1825-0097''"
  by code_simp

lemma traverse_fails:
  "\<exists>x\<in>set xs. \<exists>e. f x = Inl e \<Longrightarrow> \<exists>e. traverse f xs = Inl e"
proof (induction xs)
  case Nil
  then show ?case by simp
next
  case (Cons x xs)
  show ?case
  proof (cases "f x")
    case (Inl e)
    then show ?thesis by simp
  next
    case (Inr y)
    then have "\<exists>x\<in>set xs. \<exists>e. f x = Inl e" using Cons.prems by auto
    then obtain e where "traverse f xs = Inl e" using Cons.IH by blast
    then show ?thesis using Inr by simp
  qed
qed

lemma work_of_group_lacks: "lacks_summary g \<Longrightarrow> work_of_group g = Inl TypeError"
proof -
  assume l: "lacks_summary g"
  show ?thesis
  proof (cases g)
    case (JObj ps)
    let ?s = "value_at g [''work-summary'']"
    have g: "get g ''work-summary'' = Inr ?s"
      using JObj by (intro get_object plain_keys) simp
    have "?s = JUndefined \<or> ?s = JNull \<or> ?s = JArr [] \<or> (\<exists>rest. ?s = JArr (JNull # rest))"
      using l JObj by (auto simp: lacks_summary_def split: js.splits list.splits)
    then show ?thesis
      unfolding work_of_group_def g
      by (auto simp: array_index_zero element_def)
  qed (use l in \<open>simp_all add: lacks_summary_def work_of_group_def\<close>)
qed

lemma fetch_try_malformed:
  assumes "200 \<le> status" "status \<le> 299" "malformed body"
  shows "\<exists>e. fetch_try c (Response status (Some body)) = Inl e"
proof (cases body)
  case (JObj ps)
  let ?g = "value_at body [''group'']"
  have g: "get body ''group'' = Inr ?g"
    using JObj by (intro get_object plain_keys) simp
  have "\<exists>e. js_map (if truthy ?g then ?g else JArr []) work_of_group = Inl e"
  proof (cases ?g)
    case (JArr gs)
    then have "\<exists>x\<in>set gs. lacks_summary x"
      using assms(3) JObj by (simp add: malformed_def list_ex_iff)
    then have "\<exists>x\<in>set gs. \<exists>e. work_of_group x = Inl e"
      using work_of_group_lacks by blast
    then show ?thesis using JArr by (simp add: js_map_def traverse_fails)
  qed (use assms(3) JObj in \<open>simp_all add: malformed_def js_map_def\<close>)
  then show ?thesis
    using assms(1,2) by (auto simp: fetch_try_def g)
qed (use assms in \<open>simp_all add: malformed_def fetch_try_def\<close>)

lemma fetch_try_fails:
  "request_fails outcome \<Longrightarrow> \<exists>e. fetch_try c outcome = Inl e"
proof (cases outcome)
  case NetworkError
  then show ?thesis by (simp add: fetch_try_def)
next
  case (Response status body)
  assume f: "request_fails outcome"
  show ?thesis
  proof (cases "200 \<le> status \<and> status \<le> 299")
    case False
    then show ?thesis using Response by (simp add: fetch_try_def)
  next
    case True
    show ?thesis
    proof (cases body)
      case None
      then show ?thesis using Response True by (simp add: fetch_try_def)
    next
      case (Some b)
      then have "malformed b" using f Response True by (simp add: request_fails_def)
      then show ?thesis using fetch_try_malformed[of status b c] True Response Some by simp
    qed
  qed
qed

text \<open>
  Claim C1. \<open>fetchOrcidData\<close> returns a profile for every input and every world: it never
  raises. When the request fails (a network error, a status that is not a success, a
  body that does not parse or is malformed, or whatever else the \<open>try\<close> block throws), it
  logs the request and a warning, waits 500 ms and returns a synthetic profile: its
  identifier is the trimmed input, it has between 5 and 24 works, and each work has a
  year from 2018 to 2024 and one of the four types. \<open>Math.random\<close> returns a \<open>double\<close>
  from 0 up to, not including, 1.
\<close>

theorem fetchOrcidData_never_raises:
  "(\<exists>p w'. fetchOrcidData i w = (Inr p, w'))
   \<and> ((\<forall>k. is_double (random w k) \<and> random w k < 1) \<longrightarrow>
        (request_fails (network w (sent w) (request_url (trim i)))
         \<or> (\<exists>e. fetch_try (trim i) (network w (sent w) (request_url (trim i))) = Inl e)) \<longrightarrow>
           (\<exists>p w' e. fetchOrcidData i w = (Inr p, w')
              \<and> orcidId p = trim i
              \<and> 5 \<le> length (works p) \<and> length (works p) \<le> 24
              \<and> (\<forall>x\<in>set (works p). year x \<in> Some ` Fin ` set years \<and> type x \<in> Some ` set types)
              \<and> events w' = events w @
                  [Request (request_url (trim i)),
                   WarnReason (''API fetch failed for '' @ trim i
                     @ '', using mock data for demonstration. Reason: '') e,
                   Sleep 500]))"
proof (intro conjI impI)
  show "\<exists>p w'. fetchOrcidData i w = (Inr p, w')"
  proof (cases "fetch_try (trim i) (network w (sent w) (request_url (trim i)))")
    case (Inr p)
    then show ?thesis using fetchOrcidData_ok by blast
  next
    case (Inl e)
    then show ?thesis
      using fetchOrcidData_fallback[OF Inl] by (auto simp: Let_def split: prod.splits)
  qed
next
  assume rnd: "\<forall>k. is_double (random w k) \<and> random w k < 1"
    and "request_fails (network w (sent w) (request_url (trim i)))
         \<or> (\<exists>e. fetch_try (trim i) (network w (sent w) (request_url (trim i))) = Inl e)"
  then obtain e where "fetch_try (trim i) (network w (sent w) (request_url (trim i))) = Inl e"
    using fetch_try_fails by blast
  from fetchOrcidData_synthetic[OF rnd this]
  show "\<exists>p w' e. fetchOrcidData i w = (Inr p, w')
              \<and> orcidId p = trim i
              \<and> 5 \<le> length (works p) \<and> length (works p) \<le> 24
              \<and> (\<forall>x\<in>set (works p). year x \<in> Some ` Fin ` set years \<and> type x \<in> Some ` set types)
              \<and> events w' = events w @
                  [Request (request_url (trim i)),
                   WarnReason (''API fetch failed for '' @ trim i
                     @ '', using mock data for demonstration. Reason: '') e,
                   Sleep 500]"
    by blast
qed

theorem fetchOrcidData_never_raises_witness:
  "(\<forall>k. is_double (random offline k) \<and> random offline k < 1)
   \<and> request_fails (network offline (sent offline) (request_url (trim '' 0000-0002-1825-0097 '')))
   \<and> (\<exists>p w' e. fetchOrcidData '' 0000-0002-1825-0097 '' offline = (Inr p, w')
         \<and> orcidId p = ''0000-0002-1825-0097''
         \<and> 5 \<le> length (works p) \<and> length (works p) \<le> 24
         \<and> events w' =
             [Request ''https://pub.orcid.org/v3.0/0000-0002-1825-0097/works'',
              WarnReason ''API fetch failed for 0000-0002-1825-0097, using mock data for demonstration. Reason: '' e,
              Sleep 500])
   \<and> (\<forall>k. is_double (random (answering (Response 404 None)) k)
            \<and> random (answering (Response 404 None)) k < 1)
   \<and> request_fails (network (answering (Response 404 None)) (sent (answering (Response 404 None)))
         (request_url (trim '' 0000-0002-1825-0097 '')))
   \<and> (\<exists>p w' e. fetchOrcidData '' 0000-0002-1825-0097 '' (answering (Response 404 None)) = (Inr p, w')
         \<and> orcidId p = ''0000-0002-1825-0097''
         \<and> 5 \<le> length (works p) \<and> length (works p) \<le> 24
         \<and> events w' =
             [Request ''https://pub.orcid.org/v3.0/0000-0002-1825-0097/works'',
              WarnReason ''API fetch failed for 0000-0002-1825-0097, using mock data for demonstration. Reason: '' e,
              Sleep 500])
   \<and> (\<forall>k. is_double (random (answering (Response 200 None)) k)
            \<and> random (answering (Response 200 None)) k < 1)
   \<and> request_fails (network (answering (Response 200 None)) (sent (answering (Response 200 None)))
         (request_url (trim '' 0000-0002-1825-0097 '')))
   \<and> (\<exists>p w' e. fetchOrcidData '' 0000-0002-1825-0097 '' (answering (Response 200 None)) = (Inr p, w')
         \<and> orcidId p = ''0000-0002-1825-0097''
         \<and> 5 \<le> length (works p) \<and> length (works p) \<le> 24
         \<and> events w' =
             [Request ''https://pub.orcid.org/v3.0/0000-0002-1825-0097/works'',
              WarnReason ''API fetch failed for 0000-0002-1825-0097, using mock data for demonstration. Reason: '' e,
              Sleep 500])"
proof -
  let ?i = "'' 0000-0002-1825-0097 ''"
  have url: "request_url ''0000-0002-1825-0097'' = ''https://pub.orcid.org/v3.0/0000-0002-1825-0097/works''"
    by (simp add: request_url_def ORCID_API_BASE_def)
  have msg: "''API fetch failed for '' @ ''0000-0002-1825-0097''
       @ '', using mock data for demonstration. Reason: ''
     = ''API fetch failed for 0000-0002-1825-0097, using mock data for demonstration. Reason: ''"
    by simp
  have rnd: "\<forall>k. is_double (random (answering out) k) \<and> random (answering out) k < 1" for out
    by (simp add: answering_def is_double_half)
  have ev: "events (answering out) = []" for out by (simp add: answering_def)
  have off: "offline = answering NetworkError" by (simp add: offline_def answering_def)
  have f1: "request_fails (network (answering NetworkError) (sent (answering NetworkError)) (request_url (trim ?i)))"
    and f2: "request_fails (network (answering (Response 404 None)) (sent (answering (Response 404 None)))
         (request_url (trim ?i)))"
    and f3: "request_fails (network (answering (Response 200 None)) (sent (answering (Response 200 None)))
         (request_url (trim ?i)))"
    by (simp_all add: answering_def request_fails_def)
  have *: "\<exists>p w' e. fetchOrcidData ?i (answering out) = (Inr p, w')
         \<and> orcidId p = ''0000-0002-1825-0097''
         \<and> 5 \<le> length (works p) \<and> length (works p) \<le> 24
         \<and> events w' =
             [Request ''https://pub.orcid.org/v3.0/0000-0002-1825-0097/works'',
              WarnReason ''API fetch failed for 0000-0002-1825-0097, using mock data for demonstration. Reason: '' e,
              Sleep 500]"
    if "request_fails (network (answering out) (sent (answering out)) (request_url (trim ?i)))" for out
  proof -
    note fetchOrcidData_never_raises [where i = ?i and w = "answering out"]
    with rnd[of out] that obtain p w' e where "fetchOrcidData ?i (answering out) = (Inr p, w')"
      "orcidId p = trim ?i" "5 \<le> length (works p)" "length (works p) \<le> 24"
      "events w' = events (answering out) @
          [Request (request_url (trim ?i)),
           WarnReason (''API fetch failed for '' @ trim ?i
             @ '', using mock data for demonstration. Reason: '') e,
           Sleep 500]"
      by blast
    then show ?thesis
      unfolding trim_example ev url msg by auto
  qed
  show ?thesis
    unfolding off using rnd f1 f2 f3 *[OF f1] *[OF f2] *[OF f3] by blast
qed























section \<open>Properties of the Batch Orchestrator\<close>

lemma fetch_each_outcomes:
  "fst (fetch_each f ids results w) = results @ obtained (outcomes f ids w)"
proof (induction ids arbitrary: results w)
  case Nil
  then show ?case by (simp add: obtained_def List.map_filter_simps)
next
  case (Cons i ids)
  obtain r w' where fi: "f i w = (r, w')" by (cases "f i w")
  show ?case
  proof (cases r)
    case (Inl e)
    then show ?thesis
      using Cons[of results "console_warn (''Skipping '' @ i @ '' due to error'') w'"] fi
      by (simp add: obtained_def List.map_filter_simps)
  next
    case (Inr p)
    then show ?thesis
      using Cons[of "results @ [p]" w'] fi
      by (simp add: obtained_def List.map_filter_simps)
  qed
qed

lemma outcomes_ids: "map fst (outcomes f ids w) = ids"
  by (induction ids arbitrary: w) (simp_all add: Let_def split: prod.splits)

lemma fetch_each_events:
  assumes "\<And>i v. events (snd (f i v)) = events v"
  shows "events (snd (fetch_each f ids results w)) =
     events w @ map (\<lambda>i. Warn (''Skipping '' @ i @ '' due to error'')) (skipped (outcomes f ids w))"
proof (induction ids arbitrary: results w)
  case Nil
  then show ?case by (simp add: skipped_def List.map_filter_simps)
next
  case (Cons i ids)
  obtain r w' where fi: "f i w = (r, w')" by (cases "f i w")
  have ev: "events w' = events w" using assms[of i w] fi by simp
  show ?case
  proof (cases r)
    case (Inl e)
    then show ?thesis
      using Cons[of results "console_warn (''Skipping '' @ i @ '' due to error'') w'"] fi ev
      by (simp add: skipped_def List.map_filter_simps console_warn_def)
  next
    case (Inr p)
    then show ?thesis
      using Cons[of "results @ [p]" w'] fi ev
      by (simp add: skipped_def List.map_filter_simps)
  qed
qed

text \<open>
  Claim C7. On a file without a valid identifier the handler sets the error of an empty
  batch, and the world is as before: nothing was fetched. Otherwise it calls the fetcher
  once for each identifier, in order, each call in the world the call before it has left;
  the data are the profiles of the calls that succeeded, in order, and each call that
  failed leaves a warning in the log and does not stop the batch.
\<close>

theorem handleBatchAnalyze_batch:
  "(parseCsvFile csv = Inr [] \<longrightarrow>
      handleBatchAnalyze (Some csv) f (st, w) =
        (st\<lparr> loading := False, error := Some (message EmptyBatchError), data := [] \<rparr>, w))
   \<and> (parseCsvFile csv = Inr ids \<and> ids \<noteq> [] \<longrightarrow>
        (\<exists>st' w'. handleBatchAnalyze (Some csv) f (st, w) = (st', w')
           \<and> loading st' = False \<and> error st' = None
           \<and> map fst (outcomes f ids w) = ids
           \<and> data st' = obtained (outcomes f ids w)
           \<and> ((\<forall>i v. events (snd (f i v)) = events v) \<longrightarrow>
                events w' = events w @
                  map (\<lambda>i. Warn (''Skipping '' @ i @ '' due to error'')) (skipped (outcomes f ids w)))))"
proof (intro conjI impI)
  assume "parseCsvFile csv = Inr []"
  then show "handleBatchAnalyze (Some csv) f (st, w) =
        (st\<lparr> loading := False, error := Some (message EmptyBatchError), data := [] \<rparr>, w)"
    by (simp add: handleBatchAnalyze_def batch_try_def)
next
  assume a: "parseCsvFile csv = Inr ids \<and> ids \<noteq> []"
  obtain rs w' where fe: "fetch_each f ids [] w = (rs, w')" by (cases "fetch_each f ids [] w")
  have rs: "rs = obtained (outcomes f ids w)"
    using fetch_each_outcomes[of f ids "[]" w] fe by simp
  have ev: "events w' = events w @
      map (\<lambda>i. Warn (''Skipping '' @ i @ '' due to error'')) (skipped (outcomes f ids w))"
    if "\<forall>i v. events (snd (f i v)) = events v"
    using fetch_each_events[of f ids "[]" w] that fe by simp
  have "handleBatchAnalyze (Some csv) f (st, w) =
      (st\<lparr> loading := False, error := None, data := rs \<rparr>, w')"
    using a fe by (simp add: handleBatchAnalyze_def batch_try_def)
  then show "\<exists>st' w'. handleBatchAnalyze (Some csv) f (st, w) = (st', w')
           \<and> loading st' = False \<and> error st' = None
           \<and> map fst (outcomes f ids w) = ids
           \<and> data st' = obtained (outcomes f ids w)
           \<and> ((\<forall>i v. events (snd (f i v)) = events v) \<longrightarrow>
                events w' = events w @
                  map (\<lambda>i. Warn (''Skipping '' @ i @ '' due to error'')) (skipped (outcomes f ids w)))"
    using rs ev outcomes_ids[of f ids w] by simp
qed

theorem handleBatchAnalyze_batch_witness:
  "handleBatchAnalyze (Some (Readable (''orcid'' @ [CHR 0x0A] @ ''not-an-id''))) fetchOrcidData (idle, offline)
     = (\<lparr> loading = False, error = Some ''No valid ORCID IDs found in file.'', data = [] \<rparr>, offline)
   \<and> (\<exists>st' w'.
        handleBatchAnalyze
          (Some (Readable (''orcid'' @ [CHR 0x0A] @ ''0000-0000-0000-0001'' @ [CHR 0x0A]
             @ ''0000-0000-0000-0002'' @ [CHR 0x0A] @ ''0000-0000-0000-0003'')))
          refusing (idle, offline) = (st', w')
        \<and> loading st' = False \<and> error st' = None
        \<and> data st' =
            [\<lparr> orcidId = ''0000-0000-0000-0001'', fullName = ''Researcher 0000-0000-0000-0001'', works = [] \<rparr>,
             \<lparr> orcidId = ''0000-0000-0000-0003'', fullName = ''Researcher 0000-0000-0000-0003'', works = [] \<rparr>]
        \<and> events w' = [Warn ''Skipping 0000-0000-0000-0002 due to error''])"
proof -
  let ?e = "Readable (''orcid'' @ [CHR 0x0A] @ ''not-an-id'')"
  let ?c = "Readable (''orcid'' @ [CHR 0x0A] @ ''0000-0000-0000-0001'' @ [CHR 0x0A]
             @ ''0000-0000-0000-0002'' @ [CHR 0x0A] @ ''0000-0000-0000-0003'')"
  let ?ids = "[''0000-0000-0000-0001'', ''0000-0000-0000-0002'', ''0000-0000-0000-0003'']"
  have pe: "parseCsvFile ?e = Inr []" by code_simp
  have pc: "parseCsvFile ?c = Inr ?ids \<and> ?ids \<noteq> []" by code_simp
  have quiet: "\<forall>i v. events (snd (refusing i v)) = events v"
    by (simp add: refusing_def)
  have ob: "obtained (outcomes refusing ?ids offline) =
            [\<lparr> orcidId = ''0000-0000-0000-0001'', fullName = ''Researcher 0000-0000-0000-0001'', works = [] \<rparr>,
             \<lparr> orcidId = ''0000-0000-0000-0003'', fullName = ''Researcher 0000-0000-0000-0003'', works = [] \<rparr>]"
    by (simp add: refusing_def obtained_def List.map_filter_simps)
  have sk: "skipped (outcomes refusing ?ids offline) = [''0000-0000-0000-0002'']"
    by (simp add: refusing_def skipped_def List.map_filter_simps)
  have ev: "events offline = []" by (simp add: offline_def)
  have st: "idle\<lparr> loading := False, error := Some (message EmptyBatchError), data := [] \<rparr>
      = \<lparr> loading = False, error = Some ''No valid ORCID IDs found in file.'', data = [] \<rparr>"
    by (simp add: idle_def)
  show ?thesis
    using handleBatchAnalyze_batch [where csv = ?e and f = fetchOrcidData and st = idle and w = offline] pe
      handleBatchAnalyze_batch [where csv = ?c and ids = ?ids and f = refusing and st = idle and w = offline]
      pc quiet
    unfolding ob sk ev st by auto
qed


end
